theory Spec2Isabelle
  imports Main "HOL-Library.Multiset" "HOL-Library.AList" "HOL-Library.List_Lexorder"
    "HOL-Library.Product_Lexorder"
begin

section \<open>Strings and errors\<close>

text \<open>
  A Python \<^verbatim>\<open>str\<close> is a sequence of Unicode code points, so it is modelled as a list of
  natural numbers; \<open>u\<close> turns an ASCII literal into such a list and \<open>cp\<close> a single
  ASCII character into its code point.
\<close>

type_synonym ustr = "nat list"

definition cp :: "char \<Rightarrow> nat" where
  "cp ch = of_char ch"

definition u :: "string \<Rightarrow> ustr" where
  "u s = map cp s"

text \<open>The exceptions the scripts can meet, as values.\<close>

datatype error = ValueError | TypeError | ParseError | FileNotFoundError

section \<open>The standard library's \<^verbatim>\<open>datetime\<close>\<close>

text \<open>
  A \<^verbatim>\<open>datetime\<close> object: its calendar fields and its \<^verbatim>\<open>tzinfo\<close>. The only time zones
  the scripts ever see are the fixed offsets \<^verbatim>\<open>fromisoformat\<close> builds, so \<open>tzinfo\<close> is the
  UTC offset in microseconds, and \<open>None\<close> for a naive value.
\<close>

record datetime =
  year :: int
  month :: int
  day :: int
  hour :: int
  minute :: int
  second :: int
  microsecond :: int
  tzinfo :: "int option"

definition is_leap :: "int \<Rightarrow> bool" where
  "is_leap y = (y mod 4 = 0 \<and> (y mod 100 \<noteq> 0 \<or> y mod 400 = 0))"

text \<open>The tables \<^verbatim>\<open>_DAYS_IN_MONTH\<close> and \<^verbatim>\<open>_DAYS_BEFORE_MONTH\<close>, read at a month 1 to 12.\<close>

definition days_in_month :: "int \<Rightarrow> int \<Rightarrow> int" where
  "days_in_month y m =
     (if m = 2 \<and> is_leap y then 29
      else [0, 31, 28, 31, 30, 31, 30, 31, 31, 30, 31, 30, 31] ! nat m)"

definition days_before_month :: "int \<Rightarrow> int \<Rightarrow> int" where
  "days_before_month y m =
     [0, 0, 31, 59, 90, 120, 151, 181, 212, 243, 273, 304, 334] ! nat m
       + (if 2 < m \<and> is_leap y then 1 else 0)"

definition days_before_year :: "int \<Rightarrow> int" where
  "days_before_year y = (y - 1) * 365 + (y - 1) div 4 - (y - 1) div 100 + (y - 1) div 400"

definition ymd2ord :: "int \<Rightarrow> int \<Rightarrow> int \<Rightarrow> int" where
  "ymd2ord y m d = days_before_year y + days_before_month y m + d"

text \<open>
  The checks of the \<^verbatim>\<open>datetime\<close> constructor (\<^verbatim>\<open>_check_date_fields\<close>,
  \<^verbatim>\<open>_check_time_fields\<close>, and the range of a \<^verbatim>\<open>timezone\<close> offset, strictly between
  minus and plus 24 hours): every \<^verbatim>\<open>datetime\<close> that exists satisfies them.
\<close>

definition day_micros :: int where
  "day_micros = 86400000000"

definition valid_datetime :: "datetime \<Rightarrow> bool" where
  "valid_datetime dt =
     (1 \<le> year dt \<and> year dt \<le> 9999 \<and> 1 \<le> month dt \<and> month dt \<le> 12
      \<and> 1 \<le> day dt \<and> day dt \<le> days_in_month (year dt) (month dt)
      \<and> 0 \<le> hour dt \<and> hour dt \<le> 23 \<and> 0 \<le> minute dt \<and> minute dt \<le> 59
      \<and> 0 \<le> second dt \<and> second dt \<le> 59 \<and> 0 \<le> microsecond dt \<and> microsecond dt \<le> 999999
      \<and> (case tzinfo dt of None \<Rightarrow> True | Some off \<Rightarrow> - day_micros < off \<and> off < day_micros))"

definition new_datetime ::
  "int \<Rightarrow> int \<Rightarrow> int \<Rightarrow> int \<Rightarrow> int \<Rightarrow> int \<Rightarrow> int \<Rightarrow> int option \<Rightarrow> error + datetime" where
  "new_datetime y mo d h mi s us tz =
     (let dt = \<lparr>year = y, month = mo, day = d, hour = h, minute = mi, second = s,
                 microsecond = us, tzinfo = tz\<rparr>
      in if valid_datetime dt then Inr dt else Inl ValueError)"

text \<open>\<^verbatim>\<open>ts.replace(year=...)\<close> builds a new object through the constructor.\<close>

definition replace_year :: "datetime \<Rightarrow> int \<Rightarrow> error + datetime" where
  "replace_year dt y =
     new_datetime y (month dt) (day dt) (hour dt) (minute dt) (second dt) (microsecond dt)
       (tzinfo dt)"

subsection \<open>Comparison\<close>

text \<open>
  \<^verbatim>\<open>datetime.__lt__\<close>: two naive values compare by their fields, two aware values by the
  instant they denote (fields minus offset), and a naive with an aware value raises
  \<^verbatim>\<open>TypeError\<close>. \<open>abs_micros\<close> is the number of microseconds that orders both kinds.
\<close>

definition aware :: "datetime \<Rightarrow> bool" where
  "aware dt = (tzinfo dt \<noteq> None)"

definition naive_micros :: "datetime \<Rightarrow> int" where
  "naive_micros dt =
     (((ymd2ord (year dt) (month dt) (day dt) * 24 + hour dt) * 60 + minute dt) * 60
        + second dt) * 1000000 + microsecond dt"

definition abs_micros :: "datetime \<Rightarrow> int" where
  "abs_micros dt = naive_micros dt - (case tzinfo dt of None \<Rightarrow> 0 | Some off \<Rightarrow> off)"

definition dt_less :: "datetime \<Rightarrow> datetime \<Rightarrow> error + bool" where
  "dt_less a b =
     (if aware a \<noteq> aware b then Inl TypeError else Inr (abs_micros a < abs_micros b))"

subsection \<open>Formatting\<close>

text \<open>The decimal digits of a number that is not negative.\<close>

function digits :: "int \<Rightarrow> ustr" where
  "digits n = (if n < 10 then [48 + nat n] else digits (n div 10) @ [48 + nat (n mod 10)])"
  by pat_completeness auto
termination
  by (relation "measure nat") auto

declare digits.simps [simp del]

text \<open>\<^verbatim>\<open>'%0wd' % n\<close>: the sign counts in the width.\<close>

definition zpad :: "nat \<Rightarrow> int \<Rightarrow> ustr" where
  "zpad w n =
     (if n < 0 then cp CHR ''-'' # replicate (w - 1 - length (digits (- n))) 48 @ digits (- n)
      else replicate (w - length (digits n)) 48 @ digits n)"

definition format_time :: "datetime \<Rightarrow> ustr" where
  "format_time dt =
     zpad 2 (hour dt) @ u '':'' @ zpad 2 (minute dt) @ u '':'' @ zpad 2 (second dt)
       @ (if microsecond dt \<noteq> 0 then u ''.'' @ zpad 6 (microsecond dt) else [])"

definition format_offset :: "int option \<Rightarrow> ustr" where
  "format_offset tz =
     (case tz of
        None \<Rightarrow> []
      | Some off \<Rightarrow>
          (let a = \<bar>off\<bar>;
               hh = a div 3600000000;
               mm = (a mod 3600000000) div 60000000;
               ss = (a mod 60000000) div 1000000;
               us = a mod 1000000
           in (if off < 0 then u ''-'' else u ''+'') @ zpad 2 hh @ u '':'' @ zpad 2 mm
                @ (if ss \<noteq> 0 \<or> us \<noteq> 0
                   then u '':'' @ zpad 2 ss @ (if us \<noteq> 0 then u ''.'' @ zpad 6 us else [])
                   else [])))"

definition isoformat_sep :: "nat \<Rightarrow> datetime \<Rightarrow> ustr" where
  "isoformat_sep sep dt =
     zpad 4 (year dt) @ u ''-'' @ zpad 2 (month dt) @ u ''-'' @ zpad 2 (day dt) @ [sep]
       @ format_time dt @ format_offset (tzinfo dt)"

definition isoformat :: "datetime \<Rightarrow> ustr" where
  "isoformat dt = isoformat_sep (cp CHR ''T'') dt"

text \<open>\<^verbatim>\<open>str(ts)\<close> is \<^verbatim>\<open>ts.isoformat(sep=' ')\<close>.\<close>

definition str_datetime :: "datetime \<Rightarrow> ustr" where
  "str_datetime dt = isoformat_sep (cp CHR '' '') dt"

text \<open>\<^verbatim>\<open>ts.strftime('%Y-%m-%dT%H:%M:%SZ')\<close>.\<close>

definition strftime_Z :: "datetime \<Rightarrow> ustr" where
  "strftime_Z dt =
     zpad 4 (year dt) @ u ''-'' @ zpad 2 (month dt) @ u ''-'' @ zpad 2 (day dt) @ u ''T''
       @ zpad 2 (hour dt) @ u '':'' @ zpad 2 (minute dt) @ u '':'' @ zpad 2 (second dt) @ u ''Z''"

subsection \<open>Parsing\<close>

text \<open>
  \<^verbatim>\<open>datetime.fromisoformat\<close> is library code, and what it accepts depends on the version
  of Python, which the repository does not fix; the annotations of the scripts need
  Python 3.10. The model is the function of Python 3.10: the format documented for
  Python 3.7 to 3.10, \<^verbatim>\<open>YYYY-MM-DD[*HH[:MM[:SS[.fff[fff]]]][+HH:MM[:SS[.ffffff]]]]\<close> with
  \<^verbatim>\<open>*\<close> any one character, in the steps of the library's reference implementation
  (\<^verbatim>\<open>_parse_isoformat_date\<close>, \<^verbatim>\<open>_parse_hh_mm_ss_ff\<close>, \<^verbatim>\<open>_parse_isoformat_time\<close>), reading
  numbers as ASCII digits only. From Python 3.11 on the library differs on strings
  outside this format: it accepts further ISO 8601 spellings, which here are a
  \<^verbatim>\<open>ValueError\<close> (a fraction of other than three or six digits as in
  \<^verbatim>\<open>2023-06-01T10:00:00.5+00:00\<close>, dates and times without separators, week dates),
  and it refuses a date followed by the separator alone, \<^verbatim>\<open>2023-06-01T\<close>, which is
  read here as the date at midnight. The theorems about timestamps below are stated of
  this model.
\<close>

definition is_digit :: "nat \<Rightarrow> bool" where
  "is_digit x = (48 \<le> x \<and> x \<le> 57)"

definition parse_int :: "ustr \<Rightarrow> int option" where
  "parse_int s =
     (if s \<noteq> [] \<and> list_all is_digit s
      then Some (foldl (\<lambda>a x. 10 * a + (int x - 48)) 0 s)
      else None)"

definition parse_isoformat_date :: "ustr \<Rightarrow> error + (int \<times> int \<times> int)" where
  "parse_isoformat_date dstr =
     (if length dstr \<noteq> 10 then Inl ValueError
      else case (parse_int (take 4 dstr), parse_int (take 2 (drop 5 dstr)),
                 parse_int (take 2 (drop 8 dstr))) of
             (Some y, Some m, Some d) \<Rightarrow>
               if dstr ! 4 = cp CHR ''-'' \<and> dstr ! 7 = cp CHR ''-'' then Inr (y, m, d)
               else Inl ValueError
           | _ \<Rightarrow> Inl ValueError)"

text \<open>
  The loop of \<^verbatim>\<open>_parse_hh_mm_ss_ff\<close> over the components 0, 1, 2: the values read, and
  what is left of the string after them.
\<close>

function hms_loop :: "nat \<Rightarrow> ustr \<Rightarrow> error + (int list \<times> ustr)" where
  "hms_loop k t =
     (if length t < 2 then Inl ValueError
      else case parse_int (take 2 t) of
             None \<Rightarrow> Inl ValueError
           | Some v \<Rightarrow>
               if drop 2 t = [] \<or> 2 \<le> k then Inr ([v], drop 2 t)
               else if t ! 2 \<noteq> cp CHR '':'' then Inl ValueError
               else (case hms_loop (Suc k) (drop 3 t) of
                       Inl e \<Rightarrow> Inl e
                     | Inr (vs, r) \<Rightarrow> Inr (v # vs, r)))"
  by pat_completeness auto
termination
  by (relation "measure (\<lambda>(k, t). 3 - k)") auto

declare hms_loop.simps [simp del]

definition parse_hh_mm_ss_ff :: "ustr \<Rightarrow> error + (int \<times> int \<times> int \<times> int)" where
  "parse_hh_mm_ss_ff tstr =
     (case hms_loop 0 tstr of
        Inl e \<Rightarrow> Inl e
      | Inr (vs, r) \<Rightarrow>
          (let hh = vs ! 0;
               mm = (if 1 < length vs then vs ! 1 else 0);
               ss = (if 2 < length vs then vs ! 2 else 0)
           in if r = [] then Inr (hh, mm, ss, 0)
              else if hd r \<noteq> cp CHR ''.'' then Inl ValueError
              else if length (tl r) \<noteq> 3 \<and> length (tl r) \<noteq> 6 then Inl ValueError
              else (case parse_int (tl r) of
                      None \<Rightarrow> Inl ValueError
                    | Some f \<Rightarrow> Inr (hh, mm, ss, if length (tl r) = 3 then f * 1000 else f))))"

text \<open>\<^verbatim>\<open>tstr.find('-') + 1 or tstr.find('+') + 1\<close>: 0 when neither sign occurs.\<close>

definition find_pos :: "nat \<Rightarrow> ustr \<Rightarrow> nat" where
  "find_pos x s = (if x \<in> set s then Suc (length (takeWhile (\<lambda>y. y \<noteq> x) s)) else 0)"

definition tz_pos :: "ustr \<Rightarrow> nat" where
  "tz_pos tstr =
     (if find_pos (cp CHR ''-'') tstr \<noteq> 0 then find_pos (cp CHR ''-'') tstr
      else find_pos (cp CHR ''+'') tstr)"

definition parse_tz :: "bool \<Rightarrow> ustr \<Rightarrow> error + int option" where
  "parse_tz negative tzstr =
     (if length tzstr \<noteq> 5 \<and> length tzstr \<noteq> 8 \<and> length tzstr \<noteq> 15 then Inl ValueError
      else case parse_hh_mm_ss_ff tzstr of
             Inl e \<Rightarrow> Inl e
           | Inr (hh, mm, ss, us) \<Rightarrow>
               (let td = ((hh * 60 + mm) * 60 + ss) * 1000000 + us;
                    off = (if negative then - td else td)
                in if - day_micros < off \<and> off < day_micros then Inr (Some off)
                   else Inl ValueError))"

definition parse_isoformat_time ::
  "ustr \<Rightarrow> error + ((int \<times> int \<times> int \<times> int) \<times> int option)" where
  "parse_isoformat_time tstr =
     (if length tstr < 2 then Inl ValueError
      else let p = tz_pos tstr;
               timestr = (if 0 < p then take (p - 1) tstr else tstr)
           in case parse_hh_mm_ss_ff timestr of
                Inl e \<Rightarrow> Inl e
              | Inr comps \<Rightarrow>
                  if 0 < p
                  then (case parse_tz (tstr ! (p - 1) = cp CHR ''-'') (drop p tstr) of
                          Inl e \<Rightarrow> Inl e
                        | Inr tz \<Rightarrow> Inr (comps, tz))
                  else Inr (comps, None))"

definition fromisoformat :: "ustr \<Rightarrow> error + datetime" where
  "fromisoformat date_string =
     (case parse_isoformat_date (take 10 date_string) of
        Inl e \<Rightarrow> Inl e
      | Inr (y, m, d) \<Rightarrow>
          if drop 11 date_string \<noteq> []
          then (case parse_isoformat_time (drop 11 date_string) of
                  Inl e \<Rightarrow> Inl e
                | Inr ((hh, mm, ss, us), tz) \<Rightarrow> new_datetime y m d hh mm ss us tz)
          else new_datetime y m d 0 0 0 0 None)"

section \<open>\<^verbatim>\<open>parse_timestamp\<close>\<close>

text \<open>\<^verbatim>\<open>time_str.replace('Z', '+00:00')\<close>: every \<^verbatim>\<open>Z\<close> of the string is replaced.\<close>

definition replace_Z :: "ustr \<Rightarrow> ustr" where
  "replace_Z s = concat (map (\<lambda>x. if x = cp CHR ''Z'' then u ''+00:00'' else [x]) s)"

definition parse_timestamp :: "ustr \<Rightarrow> error + datetime" where
  "parse_timestamp time_str =
     (if cp CHR ''Z'' \<in> set time_str then fromisoformat (replace_Z time_str)
      else fromisoformat time_str)"

section \<open>Element trees and source files\<close>

text \<open>
  An \<^verbatim>\<open>xml.etree.ElementTree.Element\<close>: its tag (with the namespace in braces, as the
  library writes it), its attributes, its text and its children. \<^verbatim>\<open>copy.deepcopy\<close> of an
  element is the same value.
\<close>

datatype xml =
  Element (tag: ustr) (attrib: "(ustr \<times> ustr) list") (elem_text: "ustr option")
    (children: "xml list")

definition GPX_NS :: ustr where
  "GPX_NS = u ''http://www.topografix.com/GPX/1/1''"

text \<open>\<^verbatim>\<open>'{%s}name' % GPX_NS\<close>, the qualified tag the scripts search for.\<close>

definition gpx :: "string \<Rightarrow> ustr" where
  "gpx name = u ''{'' @ GPX_NS @ u ''}'' @ u name"

text \<open>\<^verbatim>\<open>elem.get(key)\<close>, \<^verbatim>\<open>elem.find(tag)\<close> (the first child with the tag) and
  \<^verbatim>\<open>root.findall('.//' + tag)\<close> (every descendant with the tag, in document order).\<close>

definition get :: "xml \<Rightarrow> ustr \<Rightarrow> ustr option" where
  "get elem key = map_of (attrib elem) key"

definition find_child :: "xml \<Rightarrow> ustr \<Rightarrow> xml option" where
  "find_child elem name = List.find (\<lambda>c. tag c = name) (children elem)"

fun descendants :: "xml \<Rightarrow> xml list" where
  "descendants (Element t a x cs) = concat (map (\<lambda>c. c # descendants c) cs)"

definition findall :: "xml \<Rightarrow> ustr \<Rightarrow> xml list" where
  "findall root name = filter (\<lambda>e. tag e = name) (descendants root)"

text \<open>
  What \<^verbatim>\<open>ET.parse\<close> makes of a path: nothing is there, the file is not well-formed XML,
  or the file is a document with a root element.
\<close>

datatype source = Malformed | Document xml

type_synonym path = ustr

type_synonym filesystem = "path \<Rightarrow> source option"

definition ET_parse :: "filesystem \<Rightarrow> path \<Rightarrow> error + xml" where
  "ET_parse fs file_path =
     (case fs file_path of
        None \<Rightarrow> Inl FileNotFoundError
      | Some Malformed \<Rightarrow> Inl ParseError
      | Some (Document root) \<Rightarrow> Inr root)"

section \<open>Track point extraction\<close>

text \<open>A collected point is the pair \<^verbatim>\<open>(ts, trkpt)\<close> of the parsed timestamp and the element.\<close>

type_synonym point = "datetime \<times> xml"

subsection \<open>\<^verbatim>\<open>auto_merge_timelines.py\<close> and \<^verbatim>\<open>phonetrack_timeline_updater.py\<close>\<close>

text \<open>
  The loop of \<^verbatim>\<open>collect_track_points\<close> over the \<^verbatim>\<open>trkpt\<close> elements, with the list
  \<^verbatim>\<open>points\<close> it appends to. The inner handler catches \<^verbatim>\<open>ValueError\<close> only; any other
  exception leaves the loop.
\<close>

fun collect_loop :: "xml list \<Rightarrow> point list \<Rightarrow> error + point list" where
  "collect_loop [] points = Inr points"
| "collect_loop (trkpt # rest) points =
     (case find_child trkpt (gpx ''time'') of
        None \<Rightarrow> collect_loop rest points
      | Some time_elem \<Rightarrow>
          (case elem_text time_elem of
             None \<Rightarrow> collect_loop rest points
           | Some t \<Rightarrow>
               if t = [] then collect_loop rest points
               else (case parse_timestamp t of
                       Inl ValueError \<Rightarrow> collect_loop rest points
                     | Inl e \<Rightarrow> Inl e
                     | Inr ts \<Rightarrow>
                         if year ts = 2000 then collect_loop rest points
                         else collect_loop rest (points @ [(ts, trkpt)]))))"

text \<open>
  \<^verbatim>\<open>collect_track_points\<close> returns the points and, as the warning it prints, the paths
  it could not read: the outer handler turns every exception into an empty list.
\<close>

definition collect_track_points :: "filesystem \<Rightarrow> path \<Rightarrow> point list \<times> path list" where
  "collect_track_points fs file_path =
     (case ET_parse fs file_path of
        Inl e \<Rightarrow> ([], [file_path])
      | Inr root \<Rightarrow>
          (case collect_loop (findall root (gpx ''trkpt'')) [] of
             Inl e \<Rightarrow> ([], [file_path])
           | Inr points \<Rightarrow> (points, [])))"

subsection \<open>\<^verbatim>\<open>merge_daily_exports.py\<close>\<close>

text \<open>No year filter, a bare \<^verbatim>\<open>except\<close> around the parse of the time, and no handler around
  \<^verbatim>\<open>ET.parse\<close>.\<close>

fun daily_collect_loop :: "xml list \<Rightarrow> point list \<Rightarrow> point list" where
  "daily_collect_loop [] points = points"
| "daily_collect_loop (trkpt # rest) points =
     (case find_child trkpt (gpx ''time'') of
        None \<Rightarrow> daily_collect_loop rest points
      | Some time_elem \<Rightarrow>
          (case elem_text time_elem of
             None \<Rightarrow> daily_collect_loop rest points
           | Some t \<Rightarrow>
               if t = [] then daily_collect_loop rest points
               else (case parse_timestamp t of
                       Inl e \<Rightarrow> daily_collect_loop rest points
                     | Inr ts \<Rightarrow> daily_collect_loop rest (points @ [(ts, trkpt)]))))"

definition daily_collect_track_points :: "filesystem \<Rightarrow> path \<Rightarrow> error + point list" where
  "daily_collect_track_points fs file_path =
     (case ET_parse fs file_path of
        Inl e \<Rightarrow> Inl e
      | Inr root \<Rightarrow> Inr (daily_collect_loop (findall root (gpx ''trkpt'')) []))"

subsection \<open>\<^verbatim>\<open>merge_gpx.py\<close>\<close>

definition get_trkpt_time :: "xml \<Rightarrow> error + datetime option" where
  "get_trkpt_time trkpt =
     (case find_child trkpt (gpx ''time'') of
        None \<Rightarrow> Inr None
      | Some time_elem \<Rightarrow>
          (case elem_text time_elem of
             None \<Rightarrow> Inr None
           | Some t \<Rightarrow>
               if t = [] then Inr None
               else (case parse_timestamp t of
                       Inl ValueError \<Rightarrow> Inr None
                     | Inl e \<Rightarrow> Inl e
                     | Inr ts \<Rightarrow> Inr (Some ts))))"

fun gpx_collect_loop :: "xml list \<Rightarrow> point list \<Rightarrow> error + point list" where
  "gpx_collect_loop [] points = Inr points"
| "gpx_collect_loop (trkpt # rest) points =
     (case get_trkpt_time trkpt of
        Inl e \<Rightarrow> Inl e
      | Inr None \<Rightarrow> gpx_collect_loop rest points
      | Inr (Some timestamp) \<Rightarrow> gpx_collect_loop rest (points @ [(timestamp, trkpt)]))"

definition gpx_collect_track_points :: "filesystem \<Rightarrow> path \<Rightarrow> error + point list" where
  "gpx_collect_track_points fs file_path =
     (case ET_parse fs file_path of
        Inl e \<Rightarrow> Inl e
      | Inr root \<Rightarrow> gpx_collect_loop (findall root (gpx ''trkpt'')) [])"

text \<open>\<^verbatim>\<open>time_elem.text = ...\<close> on the first \<^verbatim>\<open>time\<close> child, when there is one.\<close>

fun set_first_text :: "ustr \<Rightarrow> ustr \<Rightarrow> xml list \<Rightarrow> xml list" where
  "set_first_text name t [] = []"
| "set_first_text name t (c # cs) =
     (if tag c = name then Element (tag c) (attrib c) (Some t) (children c) # cs
      else c # set_first_text name t cs)"

definition set_time_text :: "xml \<Rightarrow> ustr \<Rightarrow> xml" where
  "set_time_text trkpt t =
     Element (tag trkpt) (attrib trkpt) (elem_text trkpt)
       (set_first_text (gpx ''time'') t (children trkpt))"

fun fix_year_2000_timestamps :: "point list \<Rightarrow> int \<Rightarrow> error + point list" where
  "fix_year_2000_timestamps [] new_year = Inr []"
| "fix_year_2000_timestamps ((timestamp, trkpt) # rest) new_year =
     (if year timestamp = 2000
      then (case replace_year timestamp new_year of
              Inl e \<Rightarrow> Inl e
            | Inr new_timestamp \<Rightarrow>
                (case fix_year_2000_timestamps rest new_year of
                   Inl e \<Rightarrow> Inl e
                 | Inr fixed \<Rightarrow>
                     Inr ((new_timestamp, set_time_text trkpt (strftime_Z new_timestamp)) # fixed)))
      else (case fix_year_2000_timestamps rest new_year of
              Inl e \<Rightarrow> Inl e
            | Inr fixed \<Rightarrow> Inr ((timestamp, trkpt) # fixed)))"

section \<open>Consolidation\<close>

subsection \<open>Duplicate removal\<close>

text \<open>
  The loop every script runs: \<^verbatim>\<open>seen\<close> is the set of keys met so far, \<^verbatim>\<open>unique\<close> the list
  of points kept. The scripts differ in the key only.
\<close>

fun remove_duplicates :: "(point \<Rightarrow> 'k) \<Rightarrow> 'k set \<Rightarrow> point list \<Rightarrow> point list \<Rightarrow> point list" where
  "remove_duplicates key seen unique [] = unique"
| "remove_duplicates key seen unique (p # all_points) =
     (if key p \<notin> seen then remove_duplicates key (insert (key p) seen) (unique @ [p]) all_points
      else remove_duplicates key seen unique all_points)"

text \<open>\<^verbatim>\<open>key = (pt.get('lat'), pt.get('lon'), ts.isoformat())\<close>\<close>

definition point_key :: "point \<Rightarrow> ustr option \<times> ustr option \<times> ustr" where
  "point_key p = (get (snd p) (u ''lat''), get (snd p) (u ''lon''), isoformat (fst p))"

definition dedup :: "point list \<Rightarrow> point list" where
  "dedup all_points = remove_duplicates point_key {} [] all_points"

text \<open>In \<^verbatim>\<open>merge_gpx.py\<close> the third component is the text of the \<^verbatim>\<open>time\<close> child as it
  stands, and \<^verbatim>\<open>str(timestamp)\<close> when there is no such child.\<close>

definition gpx_point_key :: "point \<Rightarrow> ustr option \<times> ustr option \<times> ustr option" where
  "gpx_point_key p =
     (get (snd p) (u ''lat''), get (snd p) (u ''lon''),
      (case find_child (snd p) (gpx ''time'') of
         Some time_elem \<Rightarrow> elem_text time_elem
       | None \<Rightarrow> Some (str_datetime (fst p))))"

definition gpx_dedup :: "point list \<Rightarrow> point list" where
  "gpx_dedup all_points = remove_duplicates gpx_point_key {} [] all_points"

subsection \<open>Sorting\<close>

text \<open>
  \<^verbatim>\<open>unique.sort(key=lambda x: x[0])\<close>: a stable sort on the timestamps. The comparison
  of a naive with an aware timestamp raises \<^verbatim>\<open>TypeError\<close>, and no comparison sort can order
  a list that holds both kinds without comparing two of different kinds; otherwise the
  result is the stable arrangement by \<open>abs_micros\<close>.
\<close>

definition mixed :: "point list \<Rightarrow> bool" where
  "mixed xs = (list_ex (\<lambda>p. aware (fst p)) xs \<and> list_ex (\<lambda>p. \<not> aware (fst p)) xs)"

definition sort_points :: "point list \<Rightarrow> error + point list" where
  "sort_points xs =
     (if mixed xs then Inl TypeError else Inr (sort_key (\<lambda>p. abs_micros (fst p)) xs))"

subsection \<open>The engine\<close>

text \<open>
  Lines 238 to 248 of \<^verbatim>\<open>merge_group\<close> (and the same lines of \<^verbatim>\<open>update_timeline\<close>), on
  the points of an existing timeline followed by the points of each new source.
\<close>

definition consolidate :: "point list \<Rightarrow> point list list \<Rightarrow> error + point list" where
  "consolidate existing_points new_point_lists =
     sort_points (dedup (existing_points @ concat new_point_lists))"

text \<open>
  \<^verbatim>\<open>merge_group\<close>. The rendering of the file by \<^verbatim>\<open>write_gpx\<close> is not modelled: the write
  is recorded as the call it is. The result is the write (if any), the number returned,
  and the warnings printed.
\<close>

datatype effect = Write_gpx (w_points: "point list") (w_path: path) (w_session: ustr) (w_user: ustr)

definition load_existing :: "filesystem \<Rightarrow> path option \<Rightarrow> point list \<times> path list" where
  "load_existing fs existing_timeline =
     (case existing_timeline of
        None \<Rightarrow> ([], [])
      | Some p \<Rightarrow> if fs p \<noteq> None then collect_track_points fs p else ([], []))"

fun load_files :: "filesystem \<Rightarrow> path list \<Rightarrow> point list \<times> path list \<Rightarrow> point list \<times> path list" where
  "load_files fs [] acc = acc"
| "load_files fs (gpx_file # files) (all_points, warnings) =
     (let (points, w) = collect_track_points fs gpx_file
      in load_files fs files
           (if points \<noteq> [] then all_points @ points else all_points, warnings @ w))"

definition merge_group ::
  "filesystem \<Rightarrow> path list \<Rightarrow> path \<Rightarrow> ustr \<Rightarrow> ustr \<Rightarrow> path option
     \<Rightarrow> error + (effect option \<times> nat \<times> path list)" where
  "merge_group fs files output_path session_name username existing_timeline =
     (let (all_points, warnings) = load_files fs files (load_existing fs existing_timeline)
      in if all_points = [] then Inr (None, 0, warnings)
         else (case sort_points (dedup all_points) of
                 Inl e \<Rightarrow> Inl e
               | Inr unique \<Rightarrow>
                   Inr (Some (Write_gpx unique output_path session_name username),
                        length unique, warnings)))"

text \<open>
  \<^verbatim>\<open>merge_gpx_files\<close> up to the points it hands to the writer, which
  \<^verbatim>\<open>create_merged_gpx\<close> sorts. After reading each file it prints the file's date range,
  \<^verbatim>\<open>min\<close> and \<^verbatim>\<open>max\<close> of the timestamps: they compare every timestamp with the one
  kept so far, so they raise \<^verbatim>\<open>TypeError\<close> on a file with aware and naive timestamps. The
  values printed are not modelled.
\<close>

definition merge_gpx_files :: "filesystem \<Rightarrow> path \<Rightarrow> path \<Rightarrow> bool \<Rightarrow> error + point list" where
  "merge_gpx_files fs file1 file2 fix_year_2000 =
     (case gpx_collect_track_points fs file1 of
        Inl e \<Rightarrow> Inl e
      | Inr points1 \<Rightarrow>
          if mixed points1 then Inl TypeError
          else (case gpx_collect_track_points fs file2 of
                  Inl e \<Rightarrow> Inl e
                | Inr points2 \<Rightarrow>
                    if mixed points2 then Inl TypeError
                    else (case (if fix_year_2000
                                then fix_year_2000_timestamps (points1 @ points2) 2019
                                else Inr (points1 @ points2)) of
                            Inl e \<Rightarrow> Inl e
                          | Inr all_points \<Rightarrow> sort_points (gpx_dedup all_points))))"

subsection \<open>The identity key in the specification's words\<close>

text \<open>
  The specification names the triple of the latitude text, the longitude text and the
  timestamp as originally formatted as the identity key of a point. That triple is
  \<open>spec_identity_key\<close>, written from the specification's words to be compared with
  \<open>point_key\<close>, the key the code builds.
\<close>

definition spec_identity_key :: "point \<Rightarrow> ustr option \<times> ustr option \<times> ustr option" where
  "spec_identity_key p =
     (get (snd p) (u ''lat''), get (snd p) (u ''lon''),
      (case find_child (snd p) (gpx ''time'') of
         Some time_elem \<Rightarrow> elem_text time_elem
       | None \<Rightarrow> None))"

section \<open>File names and groups\<close>

subsection \<open>The text normalizer\<close>

text \<open>
  The Unicode character database is library data, so it is a parameter of the model:
  \<open>nfd\<close> is \<^verbatim>\<open>unicodedata.normalize('NFD', s)\<close>, \<open>category\<close> is
  \<^verbatim>\<open>unicodedata.category(c)\<close> and \<open>lower\<close> is \<^verbatim>\<open>s.lower()\<close>.
\<close>

record unicode_db =
  nfd :: "ustr \<Rightarrow> ustr"
  category :: "nat \<Rightarrow> string"
  lower :: "ustr \<Rightarrow> ustr"

definition normalize_text :: "unicode_db \<Rightarrow> ustr \<Rightarrow> ustr" where
  "normalize_text db s = filter (\<lambda>c. category db c \<noteq> ''Mn'') (nfd db s)"

subsection \<open>The two patterns\<close>

text \<open>
  \<^verbatim>\<open>DAILY_PATTERN = ^(.+)_daily_(\d{4}-\d{2}-\d{2})_(.+)\.gpx$\<close> and
  \<^verbatim>\<open>FULL_PATTERN = ^(.+)_([^_]+)\.gpx$\<close>, matched with \<^verbatim>\<open>re.match\<close>. In Python's \<^verbatim>\<open>re\<close>
  a dot matches any character but a newline, \<^verbatim>\<open>\d\<close> any character of category \<^verbatim>\<open>Nd\<close>,
  and \<^verbatim>\<open>$\<close> the end of the string or the place before a newline that ends it. The
  first group is greedy: the matcher tries the longest first group first, and the match it
  returns is the first it finds; what follows the first group determines the other groups.
\<close>

definition dot_plus :: "ustr \<Rightarrow> bool" where
  "dot_plus s = (s \<noteq> [] \<and> 10 \<notin> set s)"

text \<open>What stands before \<^verbatim>\<open>\.gpx$\<close>, when the string ends that way.\<close>

definition strip_gpx_end :: "ustr \<Rightarrow> ustr option" where
  "strip_gpx_end s =
     (if 4 \<le> length s \<and> drop (length s - 4) s = u ''.gpx'' then Some (take (length s - 4) s)
      else if 5 \<le> length s \<and> drop (length s - 5) s = u ''.gpx'' @ [10]
      then Some (take (length s - 5) s)
      else None)"

definition is_date :: "unicode_db \<Rightarrow> ustr \<Rightarrow> bool" where
  "is_date db d =
     (length d = 10 \<and> d ! 4 = cp CHR ''-'' \<and> d ! 7 = cp CHR ''-''
      \<and> list_all (\<lambda>i. category db (d ! i) = ''Nd'') [0, 1, 2, 3, 5, 6, 8, 9])"

text \<open>The ways to cut a string after a first group that is not empty, longest first.\<close>

definition splits_desc :: "ustr \<Rightarrow> (ustr \<times> ustr) list" where
  "splits_desc s = map (\<lambda>n. (take n s, drop n s)) (rev [1..<Suc (length s)])"

text \<open>The rest of the daily pattern after the first group: the date and the user.\<close>

definition daily_tail :: "unicode_db \<Rightarrow> ustr \<Rightarrow> (ustr \<times> ustr) option" where
  "daily_tail db r =
     (if take 7 r = u ''_daily_'' \<and> is_date db (take 10 (drop 7 r)) \<and> take 1 (drop 17 r) = u ''_''
      then (case strip_gpx_end (drop 18 r) of
              None \<Rightarrow> None
            | Some usr \<Rightarrow> if dot_plus usr then Some (take 10 (drop 7 r), usr) else None)
      else None)"

definition match_daily :: "unicode_db \<Rightarrow> ustr \<Rightarrow> (ustr \<times> ustr \<times> ustr) option" where
  "match_daily db filename =
     (case List.find (\<lambda>(g, r). dot_plus g \<and> daily_tail db r \<noteq> None) (splits_desc filename) of
        None \<Rightarrow> None
      | Some (g, r) \<Rightarrow> map_option (\<lambda>(d, usr). (g, d, usr)) (daily_tail db r))"

text \<open>The rest of the full pattern after the first group: the user.\<close>

definition full_tail :: "ustr \<Rightarrow> ustr option" where
  "full_tail r =
     (if take 1 r = u ''_''
      then (case strip_gpx_end (drop 1 r) of
              None \<Rightarrow> None
            | Some usr \<Rightarrow> if usr \<noteq> [] \<and> cp CHR ''_'' \<notin> set usr then Some usr else None)
      else None)"

definition match_full :: "ustr \<Rightarrow> (ustr \<times> ustr) option" where
  "match_full filename =
     (case List.find (\<lambda>(g, r). dot_plus g \<and> full_tail r \<noteq> None) (splits_desc filename) of
        None \<Rightarrow> None
      | Some (g, r) \<Rightarrow> map_option (\<lambda>usr. (g, usr)) (full_tail r))"

subsection \<open>\<^verbatim>\<open>parse_filename\<close>\<close>

text \<open>\<^verbatim>\<open>sub in s\<close> for strings.\<close>

fun contains :: "ustr \<Rightarrow> ustr \<Rightarrow> bool" where
  "contains sub [] = (sub = [])"
| "contains sub (x # xs) = (take (length sub) (x # xs) = sub \<or> contains sub xs)"

definition reserved_names :: "ustr list" where
  "reserved_names = [u ''timeline'', u ''merged'', u ''combined'']"

definition parse_filename :: "unicode_db \<Rightarrow> ustr \<Rightarrow> (ustr \<times> ustr \<times> ustr option) option" where
  "parse_filename db filename =
     (if contains (u ''_TIMELINE.gpx'') filename then None
      else case match_daily db filename of
             Some (session_name, date_str, username) \<Rightarrow> Some (session_name, username, Some date_str)
           | None \<Rightarrow>
               (case match_full filename of
                  Some (session_name, username) \<Rightarrow>
                    if lower db username \<in> set reserved_names then None
                    else Some (session_name, username, None)
                | None \<Rightarrow> None))"

subsection \<open>\<^verbatim>\<open>scan_and_group_files\<close>\<close>

text \<open>\<^verbatim>\<open>gpx_file.name\<close>: the last component of a path.\<close>

definition path_name :: "path \<Rightarrow> ustr" where
  "path_name p = rev (takeWhile (\<lambda>c. c \<noteq> cp CHR ''/'') (rev p))"

type_synonym group_key = "ustr \<times> ustr"

type_synonym group = "ustr \<times> ustr \<times> path list"

definition group_key_of :: "unicode_db \<Rightarrow> ustr \<Rightarrow> ustr \<Rightarrow> group_key" where
  "group_key_of db session_name username =
     (lower db (normalize_text db session_name), lower db (normalize_text db username))"

text \<open>
  The loop over the files \<^verbatim>\<open>rglob\<close> yields, in the order it yields them. The dictionary
  \<^verbatim>\<open>temp_groups\<close> keeps its keys in insertion order, so it is an association list.
\<close>

fun scan_loop :: "unicode_db \<Rightarrow> path list \<Rightarrow> (group_key \<times> group) list \<Rightarrow> (group_key \<times> group) list" where
  "scan_loop db [] temp_groups = temp_groups"
| "scan_loop db (gpx_file # rest) temp_groups =
     (case parse_filename db (path_name gpx_file) of
        None \<Rightarrow> scan_loop db rest temp_groups
      | Some (session_name, username, date_str) \<Rightarrow>
          (case map_of temp_groups (group_key_of db session_name username) of
             None \<Rightarrow>
               scan_loop db rest
                 (temp_groups @
                    [(group_key_of db session_name username, (session_name, username, [gpx_file]))])
           | Some (first_session, first_username, files) \<Rightarrow>
               scan_loop db rest
                 (AList.update (group_key_of db session_name username)
                    (first_session, first_username, files @ [gpx_file]) temp_groups)))"

definition scan_and_group_files :: "unicode_db \<Rightarrow> path list \<Rightarrow> (group_key \<times> group) list" where
  "scan_and_group_files db found = scan_loop db found []"

subsection \<open>The loop of \<^verbatim>\<open>main\<close>\<close>

text \<open>
  The loop over the sorted groups when \<^verbatim>\<open>--dry-run\<close> is not given. Its state is the file
  system, the writes made, the warnings printed and the two totals. What \<^verbatim>\<open>ET.parse\<close>
  will later make of a file \<^verbatim>\<open>write_gpx\<close> wrote is the parameter \<open>reparse\<close>. An exception
  ends the loop; nothing in \<^verbatim>\<open>main\<close> catches it.
\<close>

record run_state =
  files_now :: filesystem
  writes :: "effect list"
  warned :: "path list"
  total_files :: nat
  total_points :: nat

definition timeline_path :: "unicode_db \<Rightarrow> path \<Rightarrow> ustr \<Rightarrow> ustr \<Rightarrow> path" where
  "timeline_path db output_dir session_name username =
     output_dir @ u ''/'' @ normalize_text db session_name @ u ''_'' @ normalize_text db username
       @ u ''_TIMELINE.gpx''"

fun main_loop ::
  "unicode_db \<Rightarrow> (effect \<Rightarrow> source) \<Rightarrow> path \<Rightarrow> bool \<Rightarrow> (group_key \<times> group) list \<Rightarrow> run_state
     \<Rightarrow> error + run_state" where
  "main_loop db reparse output_dir include_existing [] st = Inr st"
| "main_loop db reparse output_dir include_existing ((k, (session_name, username, files)) # rest) st =
     (let output_path = timeline_path db output_dir session_name username;
          existing = (if include_existing then Some output_path else None)
      in case merge_group (files_now st) files output_path session_name username existing of
           Inl e \<Rightarrow> Inl e
         | Inr (None, num_points, ws) \<Rightarrow>
             main_loop db reparse output_dir include_existing rest
               (st\<lparr>warned := warned st @ ws,
                   total_files := total_files st + length files,
                   total_points := total_points st + num_points\<rparr>)
         | Inr (Some w, num_points, ws) \<Rightarrow>
             main_loop db reparse output_dir include_existing rest
               (st\<lparr>files_now := (files_now st)(output_path \<mapsto> reparse w),
                   writes := writes st @ [w],
                   warned := warned st @ ws,
                   total_files := total_files st + length files,
                   total_points := total_points st + num_points\<rparr>))"

text \<open>\<^verbatim>\<open>main\<close> after its arguments are read: the value is the state it ends in when it
  returns (exit status 0), or the exception that ends it.\<close>

definition main_run ::
  "unicode_db \<Rightarrow> (effect \<Rightarrow> source) \<Rightarrow> filesystem \<Rightarrow> path list \<Rightarrow> path \<Rightarrow> bool \<Rightarrow> error + run_state" where
  "main_run db reparse fs found output_dir include_existing =
     main_loop db reparse output_dir include_existing
       (sort_key fst (scan_and_group_files db found))
       \<lparr>files_now = fs, writes = [], warned = [], total_files = 0, total_points = 0\<rparr>"

section \<open>Example data\<close>

text \<open>Small documents and points, used to run the definitions on concrete inputs.\<close>

definition ex_trkpt :: "string \<Rightarrow> string \<Rightarrow> string \<Rightarrow> xml list \<Rightarrow> xml" where
  "ex_trkpt lat lon t extra =
     Element (gpx ''trkpt'') [(u ''lat'', u lat), (u ''lon'', u lon)] None
       (Element (gpx ''time'') [] (Some (u t)) [] # extra)"

definition ex_ele :: "string \<Rightarrow> xml" where
  "ex_ele e = Element (gpx ''ele'') [] (Some (u e)) []"

definition ex_document :: "xml list \<Rightarrow> source" where
  "ex_document pts =
     Document (Element (gpx ''gpx'') [] None
       [Element (gpx ''trk'') [] None [Element (gpx ''trkseg'') [] None pts]])"

definition ex_utc :: "int \<Rightarrow> int \<Rightarrow> int \<Rightarrow> int \<Rightarrow> int \<Rightarrow> datetime" where
  "ex_utc y mo d h mi =
     \<lparr>year = y, month = mo, day = d, hour = h, minute = mi, second = 0, microsecond = 0,
      tzinfo = Some 0\<rparr>"

definition ex_naive :: "int \<Rightarrow> int \<Rightarrow> int \<Rightarrow> int \<Rightarrow> int \<Rightarrow> datetime" where
  "ex_naive y mo d h mi =
     \<lparr>year = y, month = mo, day = d, hour = h, minute = mi, second = 0, microsecond = 0,
      tzinfo = None\<rparr>"

text \<open>Three fixes at one place, five minutes apart.\<close>

definition ex_p1 :: point where
  "ex_p1 = (ex_utc 2023 6 1 10 0, ex_trkpt ''47.5'' ''19.0'' ''2023-06-01T10:00:00Z'' [])"

definition ex_p2 :: point where
  "ex_p2 = (ex_utc 2023 6 1 10 5, ex_trkpt ''47.5'' ''19.0'' ''2023-06-01T10:05:00Z'' [])"

definition ex_p3 :: point where
  "ex_p3 = (ex_utc 2023 6 1 10 10, ex_trkpt ''47.5'' ''19.0'' ''2023-06-01T10:10:00Z'' [])"

text \<open>The fix of \<open>ex_p1\<close> again: once with its time written with a numeric offset, once with
  an elevation, once at another place.\<close>

definition ex_p1_offset :: point where
  "ex_p1_offset =
     (ex_utc 2023 6 1 10 0, ex_trkpt ''47.5'' ''19.0'' ''2023-06-01T10:00:00+00:00'' [])"

definition ex_p1_ele :: point where
  "ex_p1_ele =
     (ex_utc 2023 6 1 10 0, ex_trkpt ''47.5'' ''19.0'' ''2023-06-01T10:00:00Z'' [ex_ele ''120''])"

definition ex_p1_north :: point where
  "ex_p1_north = (ex_utc 2023 6 1 10 0, ex_trkpt ''48.0'' ''19.0'' ''2023-06-01T10:00:00Z'' [])"

text \<open>A fix whose time has no offset, and one dated by an unset clock.\<close>

definition ex_p_naive :: point where
  "ex_p_naive = (ex_naive 2023 6 1 10 0, ex_trkpt ''47.5'' ''19.0'' ''2023-06-01T10:00:00'' [])"

definition ex_p2000 :: point where
  "ex_p2000 = (ex_utc 2000 1 1 0 0, ex_trkpt ''47.5'' ''19.0'' ''2000-01-01T00:00:00Z'' [])"

definition ex_fs :: filesystem where
  "ex_fs =
     [u ''a.gpx'' \<mapsto> ex_document [snd ex_p1, snd ex_p2],
      u ''b.gpx'' \<mapsto> ex_document [snd ex_p2, snd ex_p3],
      u ''bad.gpx'' \<mapsto> Malformed,
      u ''old.gpx'' \<mapsto> ex_document [snd ex_p2000, snd ex_p2000, snd ex_p1],
      u ''only2000.gpx'' \<mapsto> ex_document [snd ex_p2000],
      u ''texts.gpx'' \<mapsto> ex_document [snd ex_p1, snd ex_p1_offset]]"

definition ex_p2000_fixed :: point where
  "ex_p2000_fixed = (ex_utc 2019 1 1 0 0, ex_trkpt ''47.5'' ''19.0'' ''2019-01-01T00:00:00Z'' [])"

text \<open>
  A stand-in for the Unicode database on the characters of the examples: it decomposes
  the accented vowels listed, gives the combining marks U+0300 to U+036F the category
  \<^verbatim>\<open>Mn\<close> and the ASCII digits \<^verbatim>\<open>Nd\<close>, and lower-cases ASCII letters and the A with acute.
  Of the categories only \<^verbatim>\<open>Mn\<close> and \<^verbatim>\<open>Nd\<close> are ever asked for.
\<close>

definition ex_decompose :: "nat \<Rightarrow> ustr" where
  "ex_decompose c =
     (if c = 193 then [65, 769] else if c = 225 then [97, 769]
      else if c = 233 then [101, 769] else if c = 237 then [105, 769]
      else if c = 243 then [111, 769] else [c])"

definition ex_db :: unicode_db where
  "ex_db =
     \<lparr>nfd = (\<lambda>s. concat (map ex_decompose s)),
      category = (\<lambda>c. if 768 \<le> c \<and> c \<le> 879 then ''Mn'' else if 48 \<le> c \<and> c \<le> 57 then ''Nd''
                       else ''other''),
      lower = map (\<lambda>c. if 65 \<le> c \<and> c \<le> 90 then c + 32 else if c = 193 then 225 else c)\<rparr>"

definition ex_reparse :: "effect \<Rightarrow> source" where
  "ex_reparse w = ex_document (map snd (w_points w))"

text \<open>A directory with three exports of two groups: one holds only a point dated 2000.\<close>

definition ex_tree :: filesystem where
  "ex_tree =
     [u ''d/Old_Bob.gpx'' \<mapsto> ex_document [snd ex_p2000],
      u ''d/Trip_Ann.gpx'' \<mapsto> ex_document [snd ex_p1, snd ex_p2],
      u ''d/Trip_ann.gpx'' \<mapsto> ex_document [snd ex_p2, snd ex_p3]]"

definition ex_state :: run_state where
  "ex_state = \<lparr>files_now = ex_tree, writes = [], warned = [], total_files = 0, total_points = 0\<rparr>"


section \<open>Properties\<close>

subsection \<open>Evaluation and helper lemmas\<close>

lemmas ev = u_def cp_def is_leap_def days_in_month_def days_before_month_def days_before_year_def ymd2ord_def
  day_micros_def valid_datetime_def new_datetime_def replace_year_def aware_def naive_micros_def abs_micros_def
  dt_less_def digits.simps zpad_def format_time_def format_offset_def isoformat_sep_def isoformat_def
  str_datetime_def strftime_Z_def is_digit_def parse_int_def parse_isoformat_date_def hms_loop.simps
  parse_hh_mm_ss_ff_def find_pos_def tz_pos_def parse_tz_def parse_isoformat_time_def fromisoformat_def
  replace_Z_def parse_timestamp_def GPX_NS_def gpx_def get_def find_child_def findall_def ET_parse_def
  collect_track_points_def daily_collect_track_points_def get_trkpt_time_def gpx_collect_track_points_def
  set_time_text_def point_key_def dedup_def gpx_point_key_def gpx_dedup_def mixed_def sort_points_def
  consolidate_def load_existing_def merge_group_def merge_gpx_files_def
  ex_trkpt_def ex_ele_def ex_document_def ex_utc_def ex_naive_def ex_p1_def ex_p2_def ex_p3_def
  ex_p1_offset_def ex_p1_ele_def ex_p1_north_def ex_p_naive_def ex_p2000_def ex_fs_def spec_identity_key_def
  ex_p2000_fixed_def ex_decompose_def ex_db_def ex_reparse_def normalize_text_def dot_plus_def
  strip_gpx_end_def is_date_def splits_desc_def daily_tail_def match_daily_def full_tail_def
  match_full_def reserved_names_def parse_filename_def path_name_def group_key_of_def
  scan_and_group_files_def timeline_path_def main_run_def
  ex_tree_def ex_state_def Let_def


lemma remove_duplicates_acc:
  "remove_duplicates key seen unique xs = unique @ remove_duplicates key seen [] xs"
proof (induction xs arbitrary: seen unique)
  case Nil
  show ?case by simp
next
  case (Cons p xs)
  show ?case
  proof (cases "key p \<in> seen")
    case True
    then show ?thesis using Cons.IH [of seen unique] by simp
  next
    case False
    then show ?thesis
      using Cons.IH [of "insert (key p) seen" "unique @ [p]"]
        Cons.IH [of "insert (key p) seen" "[p]"]
      by simp
  qed
qed

lemma remove_duplicates_Cons:
  "remove_duplicates key seen [] (p # xs) =
     (if key p \<in> seen then remove_duplicates key seen [] xs
      else p # remove_duplicates key (insert (key p) seen) [] xs)"
  using remove_duplicates_acc [of key "insert (key p) seen" "[p]" xs] by simp

lemma remove_duplicates_append:
  "remove_duplicates key seen [] (xs @ ys) =
     remove_duplicates key seen [] xs @ remove_duplicates key (seen \<union> key ` set xs) [] ys"
proof (induction xs arbitrary: seen)
  case Nil
  show ?case by simp
next
  case (Cons p xs)
  have "insert (key p) seen \<union> key ` set xs = seen \<union> key ` set (p # xs)"
    by auto
  moreover have "key p \<in> seen \<Longrightarrow> seen \<union> key ` set xs = seen \<union> key ` set (p # xs)"
    by auto
  ultimately show ?case
    using Cons.IH [of seen] Cons.IH [of "insert (key p) seen"]
    by (simp add: remove_duplicates_Cons del: remove_duplicates.simps(2))
qed

lemma remove_duplicates_snoc:
  "remove_duplicates key seen [] (xs @ [x]) =
     remove_duplicates key seen [] xs @ (if key x \<in> seen \<union> key ` set xs then [] else [x])"
  by (simp add: remove_duplicates_append)

lemma remove_duplicates_subset:
  "set (remove_duplicates key seen [] xs) \<subseteq> set xs"
  by (induction xs arbitrary: seen)
     (auto simp: remove_duplicates_Cons simp del: remove_duplicates.simps(2))

lemma remove_duplicates_keys:
  "key ` set (remove_duplicates key seen [] xs) = key ` set xs - seen"
  by (induction xs arbitrary: seen)
     (auto simp: remove_duplicates_Cons simp del: remove_duplicates.simps(2))

lemma remove_duplicates_distinct:
  "distinct (map key (remove_duplicates key seen [] xs))"
proof (induction xs arbitrary: seen)
  case Nil
  show ?case by simp
next
  case (Cons p xs)
  have "key p \<notin> key ` set (remove_duplicates key (insert (key p) seen) [] xs)"
    by (simp add: remove_duplicates_keys)
  then show ?case
    using Cons.IH by (simp add: remove_duplicates_Cons del: remove_duplicates.simps(2))
qed

lemma remove_duplicates_id:
  "distinct (map key xs) \<Longrightarrow> key ` set xs \<inter> seen = {} \<Longrightarrow>
     remove_duplicates key seen [] xs = xs"
proof (induction xs arbitrary: seen)
  case Nil
  show ?case by simp
next
  case (Cons p xs)
  from Cons.prems have "key ` set xs \<inter> insert (key p) seen = {}" by auto
  with Cons.prems Cons.IH [of "insert (key p) seen"] show ?case
    by (auto simp: remove_duplicates_Cons simp del: remove_duplicates.simps(2))
qed

lemma remove_duplicates_seen:
  "key ` set xs \<subseteq> seen \<Longrightarrow> remove_duplicates key seen [] xs = []"
  by (induction xs) (auto simp: remove_duplicates_Cons simp del: remove_duplicates.simps(2))

lemma remove_duplicates_first_occurrence:
  "remove_duplicates key {} [] xs =
     map ((!) xs) (filter (\<lambda>i. key (xs ! i) \<notin> key ` set (take i xs)) [0..<length xs])"
proof (induction xs rule: rev_induct)
  case Nil
  show ?case by simp
next
  case (snoc x xs)
  let ?P = "\<lambda>ys i. key (ys ! i) \<notin> key ` set (take i ys)"
  have a: "filter (?P (xs @ [x])) [0..<length xs] = filter (?P xs) [0..<length xs]"
    by (rule filter_cong) (auto simp: nth_append)
  have b: "map ((!) (xs @ [x])) (filter (?P xs) [0..<length xs]) =
           map ((!) xs) (filter (?P xs) [0..<length xs])"
    by (rule map_cong) (auto simp: nth_append)
  have c: "filter (?P (xs @ [x])) [length xs] = (if key x \<in> key ` set xs then [] else [length xs])"
    by simp
  have "[0..<length (xs @ [x])] = [0..<length xs] @ [length xs]"
    by simp
  then have "map ((!) (xs @ [x])) (filter (?P (xs @ [x])) [0..<length (xs @ [x])]) =
             map ((!) (xs @ [x])) (filter (?P xs) [0..<length xs])
               @ map ((!) (xs @ [x])) (if key x \<in> key ` set xs then [] else [length xs])"
    by (simp only: filter_append map_append a c)
  also have "\<dots> = map ((!) xs) (filter (?P xs) [0..<length xs])
               @ (if key x \<in> key ` set xs then [] else [x])"
    by (simp only: b) simp
  finally show ?case
    using snoc.IH by (simp add: remove_duplicates_snoc)
qed


lemma mixed_set_eq: "set xs = set ys \<Longrightarrow> mixed xs = mixed ys"
  by (auto simp: mixed_def list_ex_iff)

lemma dedup_subset: "set (dedup xs) \<subseteq> set xs"
  by (simp add: dedup_def remove_duplicates_subset)

lemma dedup_distinct: "distinct (map point_key (dedup xs))"
  by (simp add: dedup_def remove_duplicates_distinct)

lemma dedup_id: "distinct (map point_key xs) \<Longrightarrow> dedup xs = xs"
  by (simp add: dedup_def remove_duplicates_id)

lemma dedup_keys: "point_key ` set (dedup xs) = point_key ` set xs"
  by (simp add: dedup_def remove_duplicates_keys)

lemma sort_points_Inr:
  "sort_points xs = Inr ys \<longleftrightarrow> \<not> mixed xs \<and> ys = sort_key (\<lambda>p. abs_micros (fst p)) xs"
  by (auto simp: sort_points_def)

lemma distinct_map_sort_key:
  "distinct (map g (sort_key f xs)) = distinct (map g xs)"
proof -
  have "mset (map g (sort_key f xs)) = mset (map g xs)"
    by simp
  then show ?thesis
    by (rule mset_eq_imp_distinct_iff)
qed

subsection \<open>Parsing raises \<^verbatim>\<open>ValueError\<close> only; extraction\<close>

lemma hms_loop_error: "hms_loop k t = Inl e \<Longrightarrow> e = ValueError"
proof (induction k t rule: hms_loop.induct)
  case (1 k t)
  show ?case
  proof (cases "length t < 2")
    case True
    with "1.prems" show ?thesis by (simp add: hms_loop.simps [of k t])
  next
    case False
    show ?thesis
    proof (cases "parse_int (take 2 t)")
      case None
      with False "1.prems" show ?thesis by (simp add: hms_loop.simps [of k t])
    next
      case (Some v)
      show ?thesis
      proof (cases "drop 2 t = [] \<or> 2 \<le> k")
        case True
        with False Some "1.prems" show ?thesis by (simp add: hms_loop.simps [of k t])
      next
        case stop: False
        show ?thesis
        proof (cases "t ! 2 \<noteq> cp CHR '':''")
          case True
          with False Some stop "1.prems" show ?thesis by (simp add: hms_loop.simps [of k t])
        next
          case colon: False
          with False Some stop "1.prems" "1.IH" [of v] show ?thesis
            by (auto simp: hms_loop.simps [of k t] split: sum.splits)
        qed
      qed
    qed
  qed
qed

lemma parse_hh_mm_ss_ff_error: "parse_hh_mm_ss_ff t = Inl e \<Longrightarrow> e = ValueError"
  by (auto simp: parse_hh_mm_ss_ff_def Let_def split: sum.splits prod.splits if_splits option.splits
      dest: hms_loop_error)

lemma parse_tz_error: "parse_tz neg t = Inl e \<Longrightarrow> e = ValueError"
  by (auto simp: parse_tz_def Let_def split: sum.splits prod.splits if_splits
      dest: parse_hh_mm_ss_ff_error)

lemma parse_isoformat_time_error: "parse_isoformat_time t = Inl e \<Longrightarrow> e = ValueError"
  by (auto simp: parse_isoformat_time_def Let_def split: sum.splits if_splits
      dest: parse_hh_mm_ss_ff_error parse_tz_error)

lemma parse_isoformat_date_error: "parse_isoformat_date t = Inl e \<Longrightarrow> e = ValueError"
  by (auto simp: parse_isoformat_date_def split: if_splits option.splits)

lemma new_datetime_error: "new_datetime y mo d h mi s us tz = Inl e \<Longrightarrow> e = ValueError"
  by (auto simp: new_datetime_def Let_def split: if_splits)

lemma fromisoformat_error: "fromisoformat s = Inl e \<Longrightarrow> e = ValueError"
  by (auto simp: fromisoformat_def split: sum.splits prod.splits if_splits
      dest: parse_isoformat_date_error parse_isoformat_time_error new_datetime_error)

lemma parse_timestamp_error: "parse_timestamp s = Inl e \<Longrightarrow> e = ValueError"
  by (auto simp: parse_timestamp_def split: if_splits dest: fromisoformat_error)

lemma collect_loop_result:
  "\<exists>ps. collect_loop xs acc = Inr (acc @ ps)
        \<and> (\<forall>p \<in> set ps. year (fst p) \<noteq> 2000 \<and> snd p \<in> set xs)"
proof (induction xs arbitrary: acc)
  case Nil
  show ?case by simp
next
  case (Cons trkpt rest)
  from Cons.IH [of acc] obtain ps where
    skip: "collect_loop rest acc = Inr (acc @ ps)"
      "\<forall>p \<in> set ps. year (fst p) \<noteq> 2000 \<and> snd p \<in> set rest"
    by blast
  have skipped: "\<exists>ps. collect_loop rest acc = Inr (acc @ ps)
        \<and> (\<forall>p \<in> set ps. year (fst p) \<noteq> 2000 \<and> snd p \<in> set (trkpt # rest))"
    using skip by auto
  show ?case
  proof (cases "find_child trkpt (gpx ''time'')")
    case None
    with skipped show ?thesis by simp
  next
    case (Some time_elem)
    show ?thesis
    proof (cases "elem_text time_elem")
      case None
      with Some skipped show ?thesis by simp
    next
      case t: (Some t)
      show ?thesis
      proof (cases "t = []")
        case True
        with Some t skipped show ?thesis by simp
      next
        case False
        show ?thesis
        proof (cases "parse_timestamp t")
          case (Inl e)
          then have "e = ValueError" by (rule parse_timestamp_error)
          with Some t False Inl skipped show ?thesis by simp
        next
          case (Inr ts)
          show ?thesis
          proof (cases "year ts = 2000")
            case True
            with Some t False Inr skipped show ?thesis by simp
          next
            case keep: False
            from Cons.IH [of "acc @ [(ts, trkpt)]"] obtain qs where
              "collect_loop rest (acc @ [(ts, trkpt)]) = Inr ((acc @ [(ts, trkpt)]) @ qs)"
              "\<forall>p \<in> set qs. year (fst p) \<noteq> 2000 \<and> snd p \<in> set rest"
              by blast
            with Some t False Inr keep show ?thesis
              by (intro exI [of _ "(ts, trkpt) # qs"]) auto
          qed
        qed
      qed
    qed
  qed
qed

lemma collect_track_points_cases:
  "case ET_parse fs f of
      Inl e \<Rightarrow> collect_track_points fs f = ([], [f])
    | Inr root \<Rightarrow> snd (collect_track_points fs f) = []
        \<and> (\<forall>p \<in> set (fst (collect_track_points fs f)). year (fst p) \<noteq> 2000)"
proof (cases "ET_parse fs f")
  case (Inl e)
  then show ?thesis by (simp add: collect_track_points_def)
next
  case (Inr root)
  from collect_loop_result [of "findall root (gpx ''trkpt'')" "[]"] obtain ps where
    "collect_loop (findall root (gpx ''trkpt'')) [] = Inr ps"
    "\<forall>p \<in> set ps. year (fst p) \<noteq> 2000"
    by auto
  with Inr show ?thesis by (simp add: collect_track_points_def)
qed

lemma collect_track_points_no_2000:
  "p \<in> set (fst (collect_track_points fs f)) \<Longrightarrow> year (fst p) \<noteq> 2000"
  using collect_track_points_cases [of fs f] by (auto split: sum.splits)

lemma collect_track_points_unreadable:
  "ET_parse fs f = Inl e \<Longrightarrow> collect_track_points fs f = ([], [f])"
  by (simp add: collect_track_points_def)

lemma collect_track_points_document:
  "fs f = Some (Document root) \<Longrightarrow> snd (collect_track_points fs f) = []"
  using collect_track_points_cases [of fs f] by (simp add: ET_parse_def)

lemma load_files_eq:
  "load_files fs files acc =
     (fst acc @ concat (map (\<lambda>f. fst (collect_track_points fs f)) files),
      snd acc @ concat (map (\<lambda>f. snd (collect_track_points fs f)) files))"
proof (induction files arbitrary: acc)
  case Nil
  show ?case by simp
next
  case (Cons f files)
  obtain a w where acc: "acc = (a, w)" by (cases acc)
  obtain ps ws where c: "collect_track_points fs f = (ps, ws)" by (cases "collect_track_points fs f")
  show ?case
    by (simp add: acc c Cons.IH)
qed

lemma load_existing_no_2000:
  "p \<in> set (fst (load_existing fs ex)) \<Longrightarrow> year (fst p) \<noteq> 2000"
  by (auto simp: load_existing_def split: option.splits if_splits dest: collect_track_points_no_2000)

subsection \<open>Grouping\<close>

lemma scan_loop_keeps:
  "map_of tg k = Some (s0, u0, fl) \<Longrightarrow>
     \<exists>fl'. map_of (scan_loop db found tg) k = Some (s0, u0, fl @ fl')"
proof (induction found arbitrary: tg fl)
  case Nil
  then show ?case by simp
next
  case (Cons f found)
  show ?case
  proof (cases "parse_filename db (path_name f)")
    case None
    with Cons.IH [OF Cons.prems] show ?thesis by simp
  next
    case (Some parsed)
    obtain s us d where parsed: "parsed = (s, us, d)" by (cases parsed)
    let ?k = "group_key_of db s us"
    show ?thesis
    proof (cases "map_of tg ?k")
      case None
      have "map_of (tg @ [(?k, (s, us, [f]))]) k = Some (s0, u0, fl)"
        using Cons.prems by (simp add: map_add_def)
      from Cons.IH [OF this] show ?thesis
        using Some parsed None by simp
    next
      case old: (Some v)
      obtain a b c where v: "v = (a, b, c)" by (cases v)
      show ?thesis
      proof (cases "k = ?k")
        case True
        with old v Cons.prems have eq: "a = s0" "b = u0" "c = fl" by simp_all
        have "map_of (AList.update ?k (a, b, c @ [f]) tg) k = Some (s0, u0, fl @ [f])"
          using True eq by (simp add: update_conv')
        from Cons.IH [OF this] obtain fl' where
          "map_of (scan_loop db found (AList.update ?k (a, b, c @ [f]) tg)) k
             = Some (s0, u0, (fl @ [f]) @ fl')"
          by blast
        then show ?thesis
          using Some parsed old v by (intro exI [of _ "f # fl'"]) simp
      next
        case False
        have "map_of (AList.update ?k (a, b, c @ [f]) tg) k = Some (s0, u0, fl)"
          using False Cons.prems by (simp add: update_conv')
        from Cons.IH [OF this] show ?thesis
          using Some parsed old v by simp
      qed
    qed
  qed
qed

lemma scan_loop_adds:
  "f \<in> set found \<Longrightarrow> parse_filename db (path_name f) = Some (s, us, d) \<Longrightarrow>
     \<exists>s0 u0 fl. map_of (scan_loop db found tg) (group_key_of db s us) = Some (s0, u0, fl)
        \<and> f \<in> set fl"
proof (induction found arbitrary: tg)
  case Nil
  then show ?case by simp
next
  case (Cons g found)
  let ?k = "group_key_of db s us"
  show ?case
  proof (cases "f = g")
    case True
    show ?thesis
    proof (cases "map_of tg ?k")
      case None
      have "map_of (tg @ [(?k, (s, us, [f]))]) ?k = Some (s, us, [f])"
        using None by (simp add: map_add_def)
      from scan_loop_keeps [OF this, of db found] obtain fl' where
        "map_of (scan_loop db found (tg @ [(?k, (s, us, [f]))])) ?k = Some (s, us, [f] @ fl')"
        by blast
      then show ?thesis
        using True None Cons.prems(2) by simp
    next
      case (Some v)
      obtain a b c where v: "v = (a, b, c)" by (cases v)
      have "map_of (AList.update ?k (a, b, c @ [f]) tg) ?k = Some (a, b, c @ [f])"
        by (simp add: update_conv')
      from scan_loop_keeps [OF this, of db found] obtain fl' where
        "map_of (scan_loop db found (AList.update ?k (a, b, c @ [f]) tg)) ?k
           = Some (a, b, (c @ [f]) @ fl')"
        by blast
      then show ?thesis
        using True Some v Cons.prems(2) by simp
    qed
  next
    case False
    with Cons.prems have "f \<in> set found" by simp
    note ih = Cons.IH [OF this Cons.prems(2)]
    show ?thesis
    proof (cases "parse_filename db (path_name g)")
      case None
      with ih [of tg] show ?thesis by simp
    next
      case (Some parsed)
      obtain s' us' d' where parsed: "parsed = (s', us', d')" by (cases parsed)
      show ?thesis
      proof (cases "map_of tg (group_key_of db s' us')")
        case None
        with Some parsed ih [of "tg @ [(group_key_of db s' us', (s', us', [g]))]"] show ?thesis
          by simp
      next
        case old: (Some v)
        obtain a b c where v: "v = (a, b, c)" by (cases v)
        with Some parsed old ih [of "AList.update (group_key_of db s' us') (a, b, c @ [g]) tg"]
        show ?thesis by simp
      qed
    qed
  qed
qed

subsection \<open>The points kept by the extractor\<close>

lemma get_trkpt_time_cases:
  "get_trkpt_time e = Inr None \<or> (\<exists>ts. get_trkpt_time e = Inr (Some ts))"
  by (auto simp: get_trkpt_time_def split: option.splits sum.splits error.splits
      dest: parse_timestamp_error)

lemma collect_loop_step:
  "collect_loop (e # rest) acc =
     collect_loop rest
       (acc @ (case get_trkpt_time e of
                 Inr (Some ts) \<Rightarrow> if year ts = 2000 then [] else [(ts, e)]
               | _ \<Rightarrow> []))"
proof (cases "find_child e (gpx ''time'')")
  case None
  then show ?thesis by (simp add: get_trkpt_time_def)
next
  case (Some time_elem)
  show ?thesis
  proof (cases "elem_text time_elem")
    case None
    with Some show ?thesis by (simp add: get_trkpt_time_def)
  next
    case t: (Some t)
    show ?thesis
    proof (cases "parse_timestamp t")
      case (Inl x)
      then have "x = ValueError" by (rule parse_timestamp_error)
      with Some t Inl show ?thesis by (simp add: get_trkpt_time_def)
    next
      case (Inr ts)
      with Some t show ?thesis by (simp add: get_trkpt_time_def)
    qed
  qed
qed

lemma collect_loop_exact:
  "collect_loop xs acc =
     Inr (acc @ concat (map (\<lambda>e. case get_trkpt_time e of
                                  Inr (Some ts) \<Rightarrow> if year ts = 2000 then [] else [(ts, e)]
                                | _ \<Rightarrow> []) xs))"
proof (induction xs arbitrary: acc)
  case Nil
  show ?case by simp
next
  case (Cons e rest)
  show ?case
    by (simp only: collect_loop_step Cons.IH) simp
qed

lemma collect_track_points_exact:
  "fs f = Some (Document root) \<Longrightarrow>
     collect_track_points fs f =
       (concat (map (\<lambda>e. case get_trkpt_time e of
                            Inr (Some ts) \<Rightarrow> if year ts = 2000 then [] else [(ts, e)]
                          | _ \<Rightarrow> []) (findall root (gpx ''trkpt''))), [])"
  by (simp add: collect_track_points_def ET_parse_def collect_loop_exact)

lemma collect_track_points_linked:
  assumes "p \<in> set (fst (collect_track_points fs f))"
  shows "get_trkpt_time (snd p) = Inr (Some (fst p)) \<and> year (fst p) \<noteq> 2000"
proof (cases "ET_parse fs f")
  case (Inl x)
  with assms show ?thesis by (simp add: collect_track_points_def)
next
  case (Inr root)
  with assms show ?thesis
    by (auto simp: collect_track_points_def collect_loop_exact
        split: sum.splits option.splits if_splits)
qed

lemma load_existing_linked:
  "p \<in> set (fst (load_existing fs ex)) \<Longrightarrow>
     get_trkpt_time (snd p) = Inr (Some (fst p)) \<and> year (fst p) \<noteq> 2000"
  by (auto simp: load_existing_def split: option.splits if_splits dest: collect_track_points_linked)

lemma merge_group_points:
  assumes "merge_group fs files output_path session_name username existing = Inr (Some w, n, ws)"
  shows "set (w_points w) \<subseteq> set (fst (load_files fs files (load_existing fs existing)))"
proof -
  let ?all = "fst (load_files fs files (load_existing fs existing))"
  from assms have "sort_points (dedup ?all) = Inr (w_points w)"
    by (auto simp: merge_group_def Let_def split: prod.splits if_splits sum.splits)
  then have "set (w_points w) = set (dedup ?all)"
    by (auto simp: sort_points_Inr)
  with dedup_subset show ?thesis by blast
qed

lemma merge_group_linked:
  assumes "merge_group fs files output_path session_name username existing = Inr (Some w, n, ws)"
    and "p \<in> set (w_points w)"
  shows "get_trkpt_time (snd p) = Inr (Some (fst p)) \<and> year (fst p) \<noteq> 2000"
proof -
  from merge_group_points [OF assms(1)] assms(2)
  have "p \<in> set (fst (load_files fs files (load_existing fs existing)))" by blast
  then show ?thesis
    by (auto simp: load_files_eq dest: load_existing_linked collect_track_points_linked)
qed

subsection \<open>File name patterns\<close>

lemma find_SomeD: "List.find P xs = Some x \<Longrightarrow> P x \<and> x \<in> set xs"
  by (auto simp: find_Some_iff)

lemma splits_desc_nth:
  "j < length s \<Longrightarrow> splits_desc s ! j = (take (length s - j) s, drop (length s - j) s)"
  by (simp add: splits_desc_def rev_nth Suc_diff_Suc del: upt_Suc)

lemma splits_desc_mem: "(g, r) \<in> set (splits_desc s) \<Longrightarrow> s = g @ r \<and> g \<noteq> []"
  by (auto simp: splits_desc_def)

lemma find_splits_desc_longest:
  assumes "List.find P (splits_desc s) = Some (g, r)"
    and "s = g' @ r'" and "g' \<noteq> []" and "P (g', r')"
  shows "length g' \<le> length g"
proof (rule ccontr)
  assume "\<not> length g' \<le> length g"
  then have longer: "length g < length g'" by simp
  from assms(1) obtain i where i: "i < length (splits_desc s)" "(g, r) = splits_desc s ! i"
    "\<forall>j<i. \<not> P (splits_desc s ! j)"
    by (auto simp: find_Some_iff)
  have len: "length (splits_desc s) = length s"
    by (cases s) (simp_all add: splits_desc_def del: upt_Suc)
  from i len have g: "g = take (length s - i) s"
    by (simp add: splits_desc_nth)
  let ?j = "length s - length g'"
  from assms(2) have le: "length g' \<le> length s" by simp
  from g i len have "length g = length s - i" by simp
  with longer le have "?j < i" by simp
  moreover from assms(2,3) have "?j < length s" by (cases g') simp_all
  then have "splits_desc s ! ?j = (take (length s - ?j) s, drop (length s - ?j) s)"
    by (rule splits_desc_nth)
  with assms(2) le have "splits_desc s ! ?j = (g', r')" by simp
  ultimately show False
    using i(3) assms(4) by auto
qed

lemma strip_gpx_end_Some:
  "strip_gpx_end r = Some x \<Longrightarrow> r = x @ u ''.gpx'' \<or> r = x @ u ''.gpx'' @ [10]"
proof -
  assume a: "strip_gpx_end r = Some x"
  show ?thesis
  proof (cases "4 \<le> length r \<and> drop (length r - 4) r = u ''.gpx''")
    case True
    with a have "x = take (length r - 4) r" by (simp add: strip_gpx_end_def)
    with True have "x @ u ''.gpx'' = take (length r - 4) r @ drop (length r - 4) r" by simp
    then show ?thesis by simp
  next
    case False
    with a have x: "x = take (length r - 5) r" and d: "drop (length r - 5) r = u ''.gpx'' @ [10]"
      by (auto simp: strip_gpx_end_def split: if_splits)
    then have "x @ u ''.gpx'' @ [10] = take (length r - 5) r @ drop (length r - 5) r" by simp
    then show ?thesis by simp
  qed
qed

lemma full_tail_Some:
  assumes "full_tail r = Some us"
  shows "us \<noteq> [] \<and> cp CHR ''_'' \<notin> set us
    \<and> (r = u ''_'' @ us @ u ''.gpx'' \<or> r = u ''_'' @ us @ u ''.gpx'' @ [10])"
proof -
  from assms have t: "take 1 r = u ''_''" and s: "strip_gpx_end (drop 1 r) = Some us"
    and n: "us \<noteq> []" "cp CHR ''_'' \<notin> set us"
    by (auto simp: full_tail_def split: if_splits option.splits)
  have "r = take 1 r @ drop 1 r" by simp
  with t have "r = u ''_'' @ drop 1 r" by simp
  with strip_gpx_end_Some [OF s] n show ?thesis by auto
qed

lemma daily_tail_Some:
  assumes "daily_tail db r = Some (d, us)"
  shows "is_date db d \<and> dot_plus us
    \<and> (r = u ''_daily_'' @ d @ u ''_'' @ us @ u ''.gpx''
        \<or> r = u ''_daily_'' @ d @ u ''_'' @ us @ u ''.gpx'' @ [10])"
proof -
  from assms have t: "take 7 r = u ''_daily_''" and dt: "is_date db (take 10 (drop 7 r))"
    and us: "take 1 (drop 17 r) = u ''_''" and s: "strip_gpx_end (drop 18 r) = Some us"
    and n: "dot_plus us" and d: "d = take 10 (drop 7 r)"
    by (auto simp: daily_tail_def split: if_splits option.splits)
  have "drop 17 r = take 1 (drop 17 r) @ drop 18 r"
    using append_take_drop_id [of 1 "drop 17 r"] by simp
  moreover have "drop 7 r = take 10 (drop 7 r) @ drop 17 r"
    using append_take_drop_id [of 10 "drop 7 r"] by simp
  moreover have "r = take 7 r @ drop 7 r" by simp
  ultimately have "r = u ''_daily_'' @ d @ u ''_'' @ drop 18 r"
    using t us d by simp
  with strip_gpx_end_Some [OF s] dt n d show ?thesis by auto
qed

lemma match_full_Some:
  assumes "match_full filename = Some (s, us)"
  shows "dot_plus s \<and> us \<noteq> [] \<and> cp CHR ''_'' \<notin> set us
    \<and> (filename = s @ u ''_'' @ us @ u ''.gpx'' \<or> filename = s @ u ''_'' @ us @ u ''.gpx'' @ [10])"
proof -
  from assms obtain r where
    f: "List.find (\<lambda>(g, r). dot_plus g \<and> full_tail r \<noteq> None) (splits_desc filename) = Some (s, r)"
    and t: "full_tail r = Some us"
    by (auto simp: match_full_def split: option.splits)
  from find_SomeD [OF f] have "dot_plus s" "filename = s @ r"
    by (auto dest: splits_desc_mem)
  with full_tail_Some [OF t] show ?thesis by auto
qed

lemma match_daily_Some:
  assumes "match_daily db filename = Some (s, d, us)"
  shows "dot_plus s \<and> is_date db d \<and> dot_plus us
    \<and> (filename = s @ u ''_daily_'' @ d @ u ''_'' @ us @ u ''.gpx''
        \<or> filename = s @ u ''_daily_'' @ d @ u ''_'' @ us @ u ''.gpx'' @ [10])"
proof -
  from assms obtain r where
    f: "List.find (\<lambda>(g, r). dot_plus g \<and> daily_tail db r \<noteq> None) (splits_desc filename) = Some (s, r)"
    and t: "daily_tail db r = Some (d, us)"
    by (auto simp: match_daily_def split: option.splits)
  from find_SomeD [OF f] have "dot_plus s" "filename = s @ r"
    by (auto dest: splits_desc_mem)
  with daily_tail_Some [OF t] show ?thesis by auto
qed

lemma takeWhile_upto:
  "\<forall>x \<in> set xs. x \<noteq> c \<Longrightarrow> takeWhile (\<lambda>x. x \<noteq> c) (xs @ c # ys) = xs"
  by (induction xs) auto

lemma last_separator_unique:
  assumes "a @ c # b = a' @ c # b'" and "c \<notin> set b" and "c \<notin> set b'"
  shows "a = a' \<and> b = b'"
proof -
  have "takeWhile (\<lambda>x. x \<noteq> c) (rev b @ c # rev a) = rev b"
    using assms(2) by (intro takeWhile_upto) auto
  moreover have "takeWhile (\<lambda>x. x \<noteq> c) (rev b' @ c # rev a') = rev b'"
    using assms(3) by (intro takeWhile_upto) auto
  moreover have "rev b @ c # rev a = rev b' @ c # rev a'"
    using arg_cong [OF assms(1), of rev] by simp
  ultimately have "b = b'"
    by simp
  with assms(1) show ?thesis by simp
qed

lemma full_tail_intro:
  assumes "us \<noteq> []" and "cp CHR ''_'' \<notin> set us"
  shows "full_tail (u ''_'' @ us @ u ''.gpx'') = Some us"
  using assms by (simp add: full_tail_def strip_gpx_end_def u_def cp_def)

lemma match_full_complete:
  assumes "dot_plus s" and "us \<noteq> []" and "cp CHR ''_'' \<notin> set us"
  shows "match_full (s @ u ''_'' @ us @ u ''.gpx'') = Some (s, us)"
proof -
  let ?f = "s @ u ''_'' @ us @ u ''.gpx''"
  let ?P = "\<lambda>(g, r). dot_plus g \<and> full_tail r \<noteq> None"
  have mem: "(s, u ''_'' @ us @ u ''.gpx'') \<in> set (splits_desc ?f)"
  proof -
    from assms(1) have "s \<noteq> []" by (simp add: dot_plus_def)
    then have "1 \<le> length s" by (cases s) simp_all
    then have "length s \<in> set (rev [1..<Suc (length ?f)])"
      by simp
    then have "(take (length s) ?f, drop (length s) ?f) \<in> set (splits_desc ?f)"
      unfolding splits_desc_def set_map by (rule imageI)
    then show ?thesis by simp
  qed
  have P: "?P (s, u ''_'' @ us @ u ''.gpx'')"
    using assms by (simp add: full_tail_intro)
  from mem P have "List.find ?P (splits_desc ?f) \<noteq> None"
    by (auto simp: find_None_iff)
  then obtain g r where f: "List.find ?P (splits_desc ?f) = Some (g, r)"
    by auto
  from find_SomeD [OF f] have g: "dot_plus g" "?f = g @ r" and "full_tail r \<noteq> None"
    by (auto dest: splits_desc_mem)
  then obtain us' where t: "full_tail r = Some us'" by auto
  from full_tail_Some [OF t] have us': "cp CHR ''_'' \<notin> set us'"
    and r: "r = u ''_'' @ us' @ u ''.gpx'' \<or> r = u ''_'' @ us' @ u ''.gpx'' @ [10]"
    by auto
  have c: "cp CHR ''_'' \<notin> set (us @ u ''.gpx'')"
    using assms(3) by (simp add: u_def cp_def)
  from r have "g = s \<and> us' = us"
  proof
    assume "r = u ''_'' @ us' @ u ''.gpx''"
    with g(2) have eq: "s @ cp CHR ''_'' # (us @ u ''.gpx'') = g @ cp CHR ''_'' # (us' @ u ''.gpx'')"
      by (simp add: u_def)
    have c': "cp CHR ''_'' \<notin> set (us' @ u ''.gpx'')"
      using us' by (simp add: u_def cp_def)
    from last_separator_unique [OF eq c c'] show ?thesis by simp
  next
    assume "r = u ''_'' @ us' @ u ''.gpx'' @ [10]"
    with g(2) have "last ?f = 10" by simp
    moreover have "last ?f = cp CHR ''x''" by (simp add: u_def)
    ultimately show ?thesis by (simp add: cp_def)
  qed
  with f t show ?thesis
    by (simp add: match_full_def)
qed

subsection \<open>Aware and naive timestamps\<close>




lemma new_datetime_Inr:
  "new_datetime y mo d h mi s us tz = Inr dt \<Longrightarrow> tzinfo dt = tz \<and> valid_datetime dt"
  by (auto simp: new_datetime_def Let_def split: if_splits)

lemma parse_tz_Inr: "parse_tz neg t = Inr tz \<Longrightarrow> tz \<noteq> None"
  by (auto simp: parse_tz_def Let_def split: if_splits sum.splits prod.splits)

lemma tz_pos_sign: "cp CHR ''+'' \<in> set t \<or> cp CHR ''-'' \<in> set t \<Longrightarrow> 0 < tz_pos t"
  by (auto simp: tz_pos_def find_pos_def)


lemma parse_isoformat_time_tz:
  assumes "parse_isoformat_time t = Inr (c, tz)"
  shows "(0 < tz_pos t \<longrightarrow> tz \<noteq> None) \<and> (tz_pos t = 0 \<longrightarrow> tz = None)"
  using assms
  by (auto simp: parse_isoformat_time_def Let_def split: if_splits sum.splits dest: parse_tz_Inr)



lemma fromisoformat_offset_aware:
  assumes "10 < length s" and "fromisoformat (s @ u ''+00:00'') = Inr dt"
  shows "aware dt"
proof -
  let ?t = "drop 11 (s @ u ''+00:00'')"
  have t: "?t = drop 11 s @ u ''+00:00''"
    using assms(1) by simp
  then have ne: "?t \<noteq> []" by (simp add: u_def)
  have "cp CHR ''+'' \<in> set ?t"
    unfolding t by (simp add: u_def)
  then have pos: "0 < tz_pos ?t" by (simp add: tz_pos_sign)
  from assms(2) ne obtain y m d hh mm ss us tz where
    p: "parse_isoformat_time ?t = Inr ((hh, mm, ss, us), tz)"
    and n: "new_datetime y m d hh mm ss us tz = Inr dt"
    by (auto simp: fromisoformat_def split: sum.splits prod.splits if_splits)
  from parse_isoformat_time_tz [OF p] pos have "tz \<noteq> None" by simp
  with new_datetime_Inr [OF n] show ?thesis by (simp add: aware_def)
qed






















section \<open>The claims\<close>

subsection \<open>C1: duplicate elimination\<close>

text \<open>
  Claim C1, as the code has it. The duplicate-elimination step of \<^verbatim>\<open>merge_group\<close> keeps the
  point at a position exactly when no earlier position of the concatenation holds a point
  with the same key, and keeps the survivors in concatenation order. The key is the
  latitude text, the longitude text and \<^verbatim>\<open>ts.isoformat()\<close> of the parsed timestamp: it
  reads the attributes and the timestamp only, so points that differ in their children
  (elevation, satellite count, extensions) or in their text have the same key.
\<close>

theorem dedup_first_occurrence:
  "dedup all_points =
     map ((!) all_points)
       (filter (\<lambda>i. point_key (all_points ! i) \<notin> point_key ` set (take i all_points))
          [0..<length all_points])
   \<and> point_key (ts, Element t a x cs) = point_key (ts, Element t' a x' cs')"
  by (simp add: dedup_def remove_duplicates_first_occurrence point_key_def get_def)

theorem dedup_first_occurrence_witness:
  "dedup [ex_p1, ex_p1_ele, ex_p1_north] = [ex_p1, ex_p1_north]
   \<and> map ((!) [ex_p1, ex_p1_ele, ex_p1_north])
        (filter (\<lambda>i. point_key ([ex_p1, ex_p1_ele, ex_p1_north] ! i)
                      \<notin> point_key ` set (take i [ex_p1, ex_p1_ele, ex_p1_north]))
           [0..<length [ex_p1, ex_p1_ele, ex_p1_north]])
      = [ex_p1, ex_p1_north]"
proof -
  have "dedup [ex_p1, ex_p1_ele, ex_p1_north] = [ex_p1, ex_p1_north]"
    by (simp add: ev)
  with dedup_first_occurrence [of "[ex_p1, ex_p1_ele, ex_p1_north]"] show ?thesis
    by (simp only:)
qed

text \<open>
  The key is not the timestamp as originally formatted: \<^verbatim>\<open>2023-06-01T10:00:00Z\<close> and
  \<^verbatim>\<open>2023-06-01T10:00:00+00:00\<close> are different texts and parse to the same timestamp, so
  the second of two such points at one place is dropped although no earlier point has its
  (latitude, longitude, original text) triple.
\<close>

theorem dedup_original_text_counterexample:
  "collect_track_points ex_fs (u ''texts.gpx'') = ([ex_p1, ex_p1_offset], [])
   \<and> spec_identity_key ex_p1 \<noteq> spec_identity_key ex_p1_offset
   \<and> dedup [ex_p1, ex_p1_offset] = [ex_p1]"
  by (simp add: ev)

subsection \<open>C4: idempotence\<close>

text \<open>
  Claim C4. When consolidating \<open>A\<close> with the one new list \<open>B\<close> returns the sequence \<open>R\<close>,
  consolidating \<open>R\<close> as the existing points with no new list returns \<open>R\<close> again, and so does
  consolidating \<open>R\<close> with \<open>B\<close> merged a second time.
\<close>

theorem consolidate_idempotent:
  assumes "consolidate A [B] = Inr R"
  shows "consolidate R [] = Inr R \<and> consolidate R [B] = Inr R"
proof -
  let ?f = "\<lambda>p. abs_micros (fst p)"
  let ?U = "dedup (A @ B)"
  from assms have nm: "\<not> mixed ?U" and R: "R = sort_key ?f ?U"
    by (simp_all add: consolidate_def sort_points_Inr)
  have dR: "distinct (map point_key R)"
    unfolding R by (simp add: distinct_map_sort_key dedup_distinct)
  have sR: "sort_key ?f R = R"
    unfolding R by (rule sort_key_id_if_sorted) simp
  have mR: "\<not> mixed R"
    using nm mixed_set_eq [of R ?U] by (simp add: R)
  have "point_key ` set B \<subseteq> point_key ` set R"
    unfolding R by (simp add: dedup_keys image_Un)
  then have "dedup (R @ B) = R"
    using dR by (simp add: dedup_def remove_duplicates_append remove_duplicates_id
        remove_duplicates_seen)
  moreover have "dedup R = R"
    using dR by (rule dedup_id)
  ultimately show ?thesis
    using sR mR by (simp add: consolidate_def sort_points_def)
qed

theorem consolidate_idempotent_witness:
  "consolidate [ex_p1, ex_p2] [[ex_p2, ex_p3]] = Inr [ex_p1, ex_p2, ex_p3]
   \<and> consolidate [ex_p1, ex_p2, ex_p3] [] = Inr [ex_p1, ex_p2, ex_p3]
   \<and> consolidate [ex_p1, ex_p2, ex_p3] [[ex_p2, ex_p3]] = Inr [ex_p1, ex_p2, ex_p3]"
proof -
  have h: "consolidate [ex_p1, ex_p2] [[ex_p2, ex_p3]] = Inr [ex_p1, ex_p2, ex_p3]"
    by (simp add: ev)
  from h consolidate_idempotent [OF h] show ?thesis
    by simp
qed

subsection \<open>C5: order of the output\<close>

text \<open>
  Claim C5. Every sequence \<open>consolidate\<close> returns is ascending in the absolute timestamp,
  each point no later than its successor; it holds the deduplicated points, each exactly
  as often as before the sort; and the points that share a timestamp stand in the order
  they had before the sort.
\<close>

theorem consolidate_sorted_stable:
  assumes "consolidate E Ls = Inr out"
  shows "sorted (map (\<lambda>p. abs_micros (fst p)) out)
    \<and> (\<forall>i. Suc i < length out \<longrightarrow> abs_micros (fst (out ! i)) \<le> abs_micros (fst (out ! Suc i)))
    \<and> mset out = mset (dedup (E @ concat Ls))
    \<and> (\<forall>t. filter (\<lambda>p. abs_micros (fst p) = t) out
             = filter (\<lambda>p. abs_micros (fst p) = t) (dedup (E @ concat Ls)))"
proof -
  let ?f = "\<lambda>p. abs_micros (fst p)"
  from assms have out: "out = sort_key ?f (dedup (E @ concat Ls))"
    by (simp add: consolidate_def sort_points_Inr)
  have s: "sorted (map ?f out)"
    unfolding out by simp
  then have "\<forall>i. Suc i < length out \<longrightarrow> ?f (out ! i) \<le> ?f (out ! Suc i)"
    by (simp add: sorted_iff_nth_Suc)
  moreover have "mset out = mset (dedup (E @ concat Ls))"
    unfolding out by simp
  moreover have "\<forall>t. filter (\<lambda>p. ?f p = t) out = filter (\<lambda>p. ?f p = t) (dedup (E @ concat Ls))"
    unfolding out by (simp add: sort_key_stable)
  ultimately show ?thesis
    using s by blast
qed

theorem consolidate_sorted_stable_witness:
  "consolidate [ex_p2, ex_p1_north] [[ex_p1, ex_p2]] = Inr [ex_p1_north, ex_p1, ex_p2]
   \<and> abs_micros (fst ex_p1_north) = abs_micros (fst ex_p1)
   \<and> abs_micros (fst ex_p1) \<le> abs_micros (fst ex_p2)
   \<and> dedup ([ex_p2, ex_p1_north] @ concat [[ex_p1, ex_p2]]) = [ex_p2, ex_p1_north, ex_p1]"
proof -
  have h: "consolidate [ex_p2, ex_p1_north] [[ex_p1, ex_p2]] = Inr [ex_p1_north, ex_p1, ex_p2]"
    by (simp add: ev)
  have d: "dedup ([ex_p2, ex_p1_north] @ concat [[ex_p1, ex_p2]]) = [ex_p2, ex_p1_north, ex_p1]"
    by (simp add: ev)
  have "abs_micros (fst ex_p1_north) = abs_micros (fst ex_p1)"
    by (simp add: ex_p1_north_def ex_p1_def)
  moreover have "abs_micros (fst ([ex_p1_north, ex_p1, ex_p2] ! 1))
                   \<le> abs_micros (fst ([ex_p1_north, ex_p1, ex_p2] ! Suc 1))"
    using consolidate_sorted_stable [OF h] by simp
  ultimately show ?thesis
    using h d by simp
qed

subsection \<open>C6: monotonicity\<close>

text \<open>
  Claim C6. Whenever \<open>consolidate\<close> returns for the existing points \<open>E\<close> and the new
  lists, every point of \<open>E\<close> appears in its output: the output holds a point with the
  identity key of each point of \<open>E\<close>, and it holds the points of \<open>E\<close> themselves when no two
  of them share a key, which is so of every timeline, and in particular when \<open>E\<close> is
  itself a sequence the engine returned, the previous version supplied again.
\<close>

theorem consolidate_monotone:
  assumes "consolidate E Ls = Inr out"
  shows "point_key ` set E \<subseteq> point_key ` set out
    \<and> (distinct (map point_key E) \<longrightarrow> set E \<subseteq> set out)
    \<and> (consolidate A Ls0 = Inr E \<longrightarrow> set E \<subseteq> set out)"
proof -
  let ?f = "\<lambda>p. abs_micros (fst p)"
  from assms have out: "out = sort_key ?f (dedup (E @ concat Ls))"
    by (simp add: consolidate_def sort_points_Inr)
  have U: "dedup (E @ concat Ls)
             = dedup E @ remove_duplicates point_key (point_key ` set E) [] (concat Ls)"
    by (simp add: dedup_def remove_duplicates_append)
  have keys: "point_key ` set E \<subseteq> point_key ` set out"
    unfolding out by (simp add: dedup_keys image_Un)
  have dist: "set E \<subseteq> set out" if "distinct (map point_key E)"
    unfolding out using that by (auto simp: U dedup_id)
  have "distinct (map point_key E)" if "consolidate A Ls0 = Inr E"
  proof -
    from that have "E = sort_key ?f (dedup (A @ concat Ls0))"
      by (simp add: consolidate_def sort_points_Inr)
    then show ?thesis
      by (simp add: distinct_map_sort_key dedup_distinct)
  qed
  with keys dist show ?thesis by blast
qed

theorem consolidate_monotone_witness:
  "consolidate [ex_p1, ex_p2] [[ex_p2, ex_p3]] = Inr [ex_p1, ex_p2, ex_p3]
   \<and> consolidate [ex_p1, ex_p2, ex_p3] [[ex_p1_north, ex_p2]]
       = Inr [ex_p1, ex_p1_north, ex_p2, ex_p3]
   \<and> set [ex_p1, ex_p2, ex_p3] \<subseteq> set [ex_p1, ex_p1_north, ex_p2, ex_p3]"
proof -
  have a: "consolidate [ex_p1, ex_p2] [[ex_p2, ex_p3]] = Inr [ex_p1, ex_p2, ex_p3]"
    by (simp add: ev)
  have b: "consolidate [ex_p1, ex_p2, ex_p3] [[ex_p1_north, ex_p2]]
       = Inr [ex_p1, ex_p1_north, ex_p2, ex_p3]"
    by (simp add: ev)
  from consolidate_monotone [OF b, of "[ex_p1, ex_p2]" "[[ex_p2, ex_p3]]"] a
  have "set [ex_p1, ex_p2, ex_p3] \<subseteq> set [ex_p1, ex_p1_north, ex_p2, ex_p3]"
    by blast
  with a b show ?thesis by blast
qed

subsection \<open>C2: timestamps of the year 2000\<close>

text \<open>
  Claim C2, as the code has it. In \<^verbatim>\<open>auto_merge_timelines.py\<close>, the timestamp of a
  \<^verbatim>\<open>trkpt\<close> element being the parse of the text of its \<^verbatim>\<open>time\<close> child
  (\<open>get_trkpt_time\<close>), \<^verbatim>\<open>collect_track_points\<close> returns from a well-formed document
  exactly the elements whose timestamp parses and is not of the year 2000, in document
  order, each with its timestamp, and no warning; so whatever the file, every point it
  returns is an element paired with its own timestamp, of another year, and an element
  whose timestamp parses to the year 2000 is not among them. The same holds of the points
  of every timeline \<^verbatim>\<open>merge_group\<close> writes.
\<close>

theorem year_2000_discarded:
  "(fs f = Some (Document root) \<longrightarrow>
      collect_track_points fs f =
        (concat (map (\<lambda>e. case get_trkpt_time e of
                             Inr (Some ts) \<Rightarrow> if year ts = 2000 then [] else [(ts, e)]
                           | _ \<Rightarrow> []) (findall root (gpx ''trkpt''))), []))
   \<and> (\<forall>p \<in> set (fst (collect_track_points fs f)).
         get_trkpt_time (snd p) = Inr (Some (fst p)) \<and> year (fst p) \<noteq> 2000)
   \<and> (\<forall>e ts. get_trkpt_time e = Inr (Some ts) \<and> year ts = 2000
         \<longrightarrow> e \<notin> snd ` set (fst (collect_track_points fs f)))
   \<and> (merge_group fs files output_path session_name username existing = Inr (Some w, n, ws)
        \<longrightarrow> (\<forall>p \<in> set (w_points w).
               get_trkpt_time (snd p) = Inr (Some (fst p)) \<and> year (fst p) \<noteq> 2000)
          \<and> (\<forall>e ts. get_trkpt_time e = Inr (Some ts) \<and> year ts = 2000
               \<longrightarrow> e \<notin> snd ` set (w_points w)))"
proof -
  have a: "fs f = Some (Document root) \<longrightarrow>
      collect_track_points fs f =
        (concat (map (\<lambda>e. case get_trkpt_time e of
                             Inr (Some ts) \<Rightarrow> if year ts = 2000 then [] else [(ts, e)]
                           | _ \<Rightarrow> []) (findall root (gpx ''trkpt''))), [])"
    by (auto dest: collect_track_points_exact)
  have b: "\<forall>p \<in> set (fst (collect_track_points fs f)).
         get_trkpt_time (snd p) = Inr (Some (fst p)) \<and> year (fst p) \<noteq> 2000"
    by (auto dest: collect_track_points_linked)
  have c: "\<forall>e ts. get_trkpt_time e = Inr (Some ts) \<and> year ts = 2000
         \<longrightarrow> e \<notin> snd ` set (fst (collect_track_points fs f))"
  proof (intro allI impI notI)
    fix e ts
    assume e: "get_trkpt_time e = Inr (Some ts) \<and> year ts = 2000"
      and "e \<in> snd ` set (fst (collect_track_points fs f))"
    then obtain p where "p \<in> set (fst (collect_track_points fs f))" "e = snd p" by auto
    with collect_track_points_linked [of p fs f] e show False by auto
  qed
  have d: "(\<forall>p \<in> set (w_points w).
               get_trkpt_time (snd p) = Inr (Some (fst p)) \<and> year (fst p) \<noteq> 2000)
          \<and> (\<forall>e ts. get_trkpt_time e = Inr (Some ts) \<and> year ts = 2000
               \<longrightarrow> e \<notin> snd ` set (w_points w))"
    if m: "merge_group fs files output_path session_name username existing = Inr (Some w, n, ws)"
  proof (intro conjI ballI allI impI notI)
    fix p
    assume "p \<in> set (w_points w)"
    with merge_group_linked [OF m] show "get_trkpt_time (snd p) = Inr (Some (fst p))"
      and "year (fst p) = 2000 \<Longrightarrow> False"
      by auto
  next
    fix e ts
    assume e: "get_trkpt_time e = Inr (Some ts) \<and> year ts = 2000"
      and "e \<in> snd ` set (w_points w)"
    then obtain p where "p \<in> set (w_points w)" "e = snd p" by auto
    with merge_group_linked [OF m, of p] e show False by auto
  qed
  from a b c d show ?thesis by blast
qed

theorem year_2000_discarded_witness:
  "ex_fs (u ''old.gpx'') = Some (ex_document [snd ex_p2000, snd ex_p2000, snd ex_p1])
   \<and> get_trkpt_time (snd ex_p2000) = Inr (Some (fst ex_p2000)) \<and> year (fst ex_p2000) = 2000
   \<and> collect_track_points ex_fs (u ''old.gpx'') = ([ex_p1], [])
   \<and> snd ex_p2000 \<notin> snd ` set (fst (collect_track_points ex_fs (u ''old.gpx'')))
   \<and> merge_group ex_fs [u ''old.gpx'', u ''only2000.gpx''] (u ''out.gpx'') (u ''S'') (u ''U'') None
       = Inr (Some (Write_gpx [ex_p1] (u ''out.gpx'') (u ''S'') (u ''U'')), 1, [])
   \<and> snd ex_p2000 \<notin> snd ` set [ex_p1]"
proof -
  have f: "ex_fs (u ''old.gpx'') = Some (ex_document [snd ex_p2000, snd ex_p2000, snd ex_p1])"
    by (simp add: ev)
  have g: "get_trkpt_time (snd ex_p2000) = Inr (Some (fst ex_p2000)) \<and> year (fst ex_p2000) = 2000"
    by (simp add: ev)
  have c: "collect_track_points ex_fs (u ''old.gpx'') = ([ex_p1], [])"
    by (simp add: ev)
  have m: "merge_group ex_fs [u ''old.gpx'', u ''only2000.gpx''] (u ''out.gpx'') (u ''S'') (u ''U'') None
       = Inr (Some (Write_gpx [ex_p1] (u ''out.gpx'') (u ''S'') (u ''U'')), 1, [])"
    by (simp add: ev)
  note t = year_2000_discarded [of ex_fs "u ''old.gpx''" _ "[u ''old.gpx'', u ''only2000.gpx'']"
      "u ''out.gpx''" "u ''S''" "u ''U''" None "Write_gpx [ex_p1] (u ''out.gpx'') (u ''S'') (u ''U'')"
      1 "[]"]
  from t g have 1: "snd ex_p2000 \<notin> snd ` set (fst (collect_track_points ex_fs (u ''old.gpx'')))"
    by blast
  from t g m have 2: "snd ex_p2000 \<notin> snd ` set (w_points (Write_gpx [ex_p1] (u ''out.gpx'') (u ''S'') (u ''U'')))"
    by blast
  from f g c m 1 2 show ?thesis by simp
qed

text \<open>
  The other scripts do not discard these points. On a file whose one point is dated
  2000-01-01, \<^verbatim>\<open>merge_gpx_files\<close> keeps the point as it is when the fix is switched off
  and re-dates it to 2019 when it is on; the extractor of \<^verbatim>\<open>merge_daily_exports.py\<close>
  returns it, having no filter.
\<close>

theorem year_2000_kept_counterexample:
  "parse_timestamp (u ''2000-01-01T00:00:00Z'') = Inr (fst ex_p2000)
   \<and> year (fst ex_p2000) = 2000
   \<and> merge_gpx_files ex_fs (u ''only2000.gpx'') (u ''b.gpx'') False = Inr [ex_p2000, ex_p2, ex_p3]
   \<and> merge_gpx_files ex_fs (u ''only2000.gpx'') (u ''b.gpx'') True = Inr [ex_p2000_fixed, ex_p2, ex_p3]
   \<and> daily_collect_track_points ex_fs (u ''only2000.gpx'') = Inr [ex_p2000]"
  by (simp add: ev)

subsection \<open>C3: unreadable sources\<close>

text \<open>
  Claim C3, as the code has it. In \<^verbatim>\<open>auto_merge_timelines.py\<close>, for a file that is
  missing or not well-formed XML, \<^verbatim>\<open>collect_track_points\<close> returns no points and one
  warning naming the file, and raises nothing; \<^verbatim>\<open>merge_group\<close> loads from the other files
  of the group what it loads without the bad file, warns of the bad file, and writes and
  returns what it does without it.
\<close>

theorem unreadable_source_skipped:
  assumes "ET_parse fs f = Inl e"
  shows "collect_track_points fs f = ([], [f])
    \<and> fst (load_files fs (xs @ f # ys) acc) = fst (load_files fs (xs @ ys) acc)
    \<and> f \<in> set (snd (load_files fs (xs @ f # ys) acc))
    \<and> map_sum id (\<lambda>(w, n, ws). (w, n))
          (merge_group fs (xs @ f # ys) output_path session_name username existing)
        = map_sum id (\<lambda>(w, n, ws). (w, n))
          (merge_group fs (xs @ ys) output_path session_name username existing)"
proof -
  have c: "collect_track_points fs f = ([], [f])"
    using assms by (rule collect_track_points_unreadable)
  have l: "fst (load_files fs (xs @ f # ys) acc) = fst (load_files fs (xs @ ys) acc)" for acc
    by (simp add: load_files_eq c)
  have w: "f \<in> set (snd (load_files fs (xs @ f # ys) acc))"
    by (simp add: load_files_eq c)
  have "map_sum id (\<lambda>(w, n, ws). (w, n))
          (merge_group fs (xs @ f # ys) output_path session_name username existing)
        = map_sum id (\<lambda>(w, n, ws). (w, n))
          (merge_group fs (xs @ ys) output_path session_name username existing)"
    using l [of "load_existing fs existing"]
    by (auto simp: merge_group_def Let_def split: prod.splits sum.splits)
  with c l w show ?thesis by blast
qed

theorem unreadable_source_skipped_witness:
  "ET_parse ex_fs (u ''bad.gpx'') = Inl ParseError
   \<and> collect_track_points ex_fs (u ''bad.gpx'') = ([], [u ''bad.gpx''])
   \<and> merge_group ex_fs [u ''a.gpx'', u ''bad.gpx'', u ''b.gpx''] (u ''out.gpx'') (u ''S'') (u ''U'') None
       = Inr (Some (Write_gpx [ex_p1, ex_p2, ex_p3] (u ''out.gpx'') (u ''S'') (u ''U'')), 3,
              [u ''bad.gpx''])
   \<and> map_sum id (\<lambda>(w, n, ws). (w, n))
        (merge_group ex_fs ([u ''a.gpx''] @ [u ''b.gpx'']) (u ''out.gpx'') (u ''S'') (u ''U'') None)
       = Inr (Some (Write_gpx [ex_p1, ex_p2, ex_p3] (u ''out.gpx'') (u ''S'') (u ''U'')), 3)"
proof -
  have h: "ET_parse ex_fs (u ''bad.gpx'') = Inl ParseError"
    by (simp add: ev)
  have m: "merge_group ex_fs ([u ''a.gpx''] @ u ''bad.gpx'' # [u ''b.gpx'']) (u ''out.gpx'') (u ''S'') (u ''U'') None
       = Inr (Some (Write_gpx [ex_p1, ex_p2, ex_p3] (u ''out.gpx'') (u ''S'') (u ''U'')), 3,
              [u ''bad.gpx''])"
    by (simp add: ev)
  note t = unreadable_source_skipped [OF h, of "[u ''a.gpx'']" "[u ''b.gpx'']" "([], [])"
      "u ''out.gpx''" "u ''S''" "u ''U''" None]
  from t have "collect_track_points ex_fs (u ''bad.gpx'') = ([], [u ''bad.gpx''])"
    by blast
  moreover from t m have "map_sum id (\<lambda>(w, n, ws). (w, n))
        (merge_group ex_fs ([u ''a.gpx''] @ [u ''b.gpx'']) (u ''out.gpx'') (u ''S'') (u ''U'') None)
       = Inr (Some (Write_gpx [ex_p1, ex_p2, ex_p3] (u ''out.gpx'') (u ''S'') (u ''U'')), 3)"
    by simp
  ultimately show ?thesis
    using h m by simp
qed

text \<open>
  The extractors of \<^verbatim>\<open>merge_daily_exports.py\<close> and \<^verbatim>\<open>merge_gpx.py\<close> have no handler
  around \<^verbatim>\<open>ET.parse\<close>: on the same file they raise, and the run ends.
\<close>

theorem unreadable_source_raises_counterexample:
  "ET_parse ex_fs (u ''bad.gpx'') = Inl ParseError
   \<and> daily_collect_track_points ex_fs (u ''bad.gpx'') = Inl ParseError
   \<and> gpx_collect_track_points ex_fs (u ''bad.gpx'') = Inl ParseError
   \<and> merge_gpx_files ex_fs (u ''bad.gpx'') (u ''b.gpx'') True = Inl ParseError"
  by (simp add: ev)

subsection \<open>C9: a group without points\<close>

text \<open>
  Claim C9. When the existing timeline and the source files of a group give no point at
  all, \<^verbatim>\<open>merge_group\<close> writes nothing and returns 0 without raising; and the loop of
  \<^verbatim>\<open>main\<close> goes on to the remaining groups with the file system and the writes as they
  were, the group's files counted and no point added, so the run is not failed by it.
\<close>

theorem empty_group_not_written:
  assumes "fst (load_files fs files (load_existing fs existing)) = []"
  shows "merge_group fs files output_path session_name username existing
           = Inr (None, 0, snd (load_files fs files (load_existing fs existing)))
    \<and> (files_now st = fs
         \<and> existing = (if include_existing
                        then Some (timeline_path db output_dir session_name username) else None)
        \<longrightarrow> main_loop db reparse output_dir include_existing
              ((k, (session_name, username, files)) # rest) st
            = main_loop db reparse output_dir include_existing rest
                (st\<lparr>warned := warned st @ snd (load_files fs files (load_existing fs existing)),
                    total_files := total_files st + length files\<rparr>))"
proof -
  have m: "merge_group fs files p session_name username existing
           = Inr (None, 0, snd (load_files fs files (load_existing fs existing)))" for p
    using assms by (cases "load_files fs files (load_existing fs existing)")
      (simp add: merge_group_def)
  show ?thesis
  proof (intro conjI impI)
    show "merge_group fs files output_path session_name username existing
           = Inr (None, 0, snd (load_files fs files (load_existing fs existing)))"
      by (rule m)
  next
    assume a: "files_now st = fs
         \<and> existing = (if include_existing
                        then Some (timeline_path db output_dir session_name username) else None)"
    then have "merge_group (files_now st) files (timeline_path db output_dir session_name username)
          session_name username
          (if include_existing then Some (timeline_path db output_dir session_name username) else None)
        = Inr (None, 0, snd (load_files fs files (load_existing fs existing)))"
      using m [of "timeline_path db output_dir session_name username"] by simp
    then show "main_loop db reparse output_dir include_existing
              ((k, (session_name, username, files)) # rest) st
            = main_loop db reparse output_dir include_existing rest
                (st\<lparr>warned := warned st @ snd (load_files fs files (load_existing fs existing)),
                    total_files := total_files st + length files\<rparr>)"
      by (simp add: Let_def)
  qed
qed

theorem empty_group_not_written_witness:
  "fst (load_files ex_tree [u ''d/Old_Bob.gpx''] (load_existing ex_tree None)) = []
   \<and> merge_group ex_tree [u ''d/Old_Bob.gpx''] (u ''out/Old_Bob_TIMELINE.gpx'') (u ''Old'') (u ''Bob'') None
       = Inr (None, 0, [])
   \<and> main_loop ex_db ex_reparse (u ''out'') False
        [((u ''old'', u ''bob''), (u ''Old'', u ''Bob'', [u ''d/Old_Bob.gpx'']))] ex_state
       = Inr (ex_state\<lparr>total_files := 1\<rparr>)"
proof -
  have h: "fst (load_files ex_tree [u ''d/Old_Bob.gpx''] (load_existing ex_tree None)) = []"
    by (simp add: ev)
  have w: "snd (load_files ex_tree [u ''d/Old_Bob.gpx''] (load_existing ex_tree None)) = []"
    by (simp add: ev)
  have s: "files_now ex_state = ex_tree"
    by (simp add: ex_state_def)
  note t = empty_group_not_written [OF h, of "u ''out/Old_Bob_TIMELINE.gpx''" "u ''Old''" "u ''Bob''"
      ex_state False ex_db "u ''out''" ex_reparse "(u ''old'', u ''bob'')" "[]"]
  from t w have "merge_group ex_tree [u ''d/Old_Bob.gpx''] (u ''out/Old_Bob_TIMELINE.gpx'')
       (u ''Old'') (u ''Bob'') None = Inr (None, 0, [])"
    by simp
  moreover from t w s have "main_loop ex_db ex_reparse (u ''out'') False
        [((u ''old'', u ''bob''), (u ''Old'', u ''Bob'', [u ''d/Old_Bob.gpx'']))] ex_state
       = Inr (ex_state\<lparr>total_files := 1\<rparr>)"
    by (simp add: ex_state_def)
  ultimately show ?thesis
    using h by blast
qed

subsection \<open>C7: accents and case\<close>

text \<open>
  Claim C7. The normalizer is the NFD form of the text without its characters of
  category \<^verbatim>\<open>Mn\<close>. Given what the Unicode database says of the characters involved (the
  A with acute decomposes into A and the combining acute U+0301, which is of category
  \<^verbatim>\<open>Mn\<close>; the ASCII letters do not decompose and are not of that category; \<^verbatim>\<open>Agi\<close> and
  \<^verbatim>\<open>AGI\<close> lower-case to \<^verbatim>\<open>agi\<close>), the accented and the plain spelling of \<^verbatim>\<open>Agi\<close> normalize to the
  same text, and after lower-casing to the same key as \<^verbatim>\<open>AGI\<close>. Whatever the database, two
  scanned files whose parsed names give the same key are in the file list of one group,
  whichever pattern matched them.
\<close>

theorem accent_and_case_grouping:
  assumes "nfd db [193, 103, 105] = [65, 769, 103, 105]"
    and "nfd db (u ''Agi'') = u ''Agi''"
    and "nfd db (u ''AGI'') = u ''AGI''"
    and "category db 769 = ''Mn''"
    and "\<forall>c \<in> set (u ''AgiGI''). category db c \<noteq> ''Mn''"
    and "lower db (u ''Agi'') = u ''agi''"
    and "lower db (u ''AGI'') = u ''agi''"
  shows "normalize_text db [193, 103, 105] = normalize_text db (u ''Agi'')
    \<and> lower db (normalize_text db [193, 103, 105]) = lower db (normalize_text db (u ''AGI''))
    \<and> lower db (normalize_text db (u ''Agi'')) = lower db (normalize_text db (u ''AGI''))
    \<and> (\<forall>s. \<forall>c \<in> set (normalize_text db s). category db c \<noteq> ''Mn'')
    \<and> (\<forall>found f g s us d s' us' d'.
          f \<in> set found \<and> g \<in> set found
          \<and> parse_filename db (path_name f) = Some (s, us, d)
          \<and> parse_filename db (path_name g) = Some (s', us', d')
          \<and> group_key_of db s us = group_key_of db s' us'
          \<longrightarrow> (\<exists>s0 u0 fl. map_of (scan_and_group_files db found) (group_key_of db s us)
                              = Some (s0, u0, fl) \<and> f \<in> set fl \<and> g \<in> set fl))"
proof -
  have ascii: "category db 65 \<noteq> ''Mn''" "category db 103 \<noteq> ''Mn''" "category db 105 \<noteq> ''Mn''"
    "category db 71 \<noteq> ''Mn''" "category db 73 \<noteq> ''Mn''"
    using assms(5) by (simp_all add: u_def cp_def)
  have a: "normalize_text db [193, 103, 105] = u ''Agi''"
    using assms(1,4) ascii by (simp add: normalize_text_def u_def cp_def)
  have b: "normalize_text db (u ''Agi'') = u ''Agi''"
    using assms(2) ascii by (simp add: normalize_text_def u_def cp_def)
  have c: "normalize_text db (u ''AGI'') = u ''AGI''"
    using assms(3) ascii by (simp add: normalize_text_def u_def cp_def)
  have mn: "\<forall>s. \<forall>c \<in> set (normalize_text db s). category db c \<noteq> ''Mn''"
    by (simp add: normalize_text_def)
  have grp: "\<exists>s0 u0 fl. map_of (scan_and_group_files db found) (group_key_of db s us)
                              = Some (s0, u0, fl) \<and> f \<in> set fl \<and> g \<in> set fl"
    if f: "f \<in> set found" and g: "g \<in> set found"
      and pf: "parse_filename db (path_name f) = Some (s, us, d)"
      and pg: "parse_filename db (path_name g) = Some (s', us', d')"
      and k: "group_key_of db s us = group_key_of db s' us'"
    for found f g s us d s' us' d'
  proof -
    from scan_loop_adds [OF f pf, of "[]"] obtain s0 u0 fl where
      1: "map_of (scan_loop db found []) (group_key_of db s us) = Some (s0, u0, fl)" "f \<in> set fl"
      by blast
    from scan_loop_adds [OF g pg, of "[]"] k obtain s1 u1 fl1 where
      2: "map_of (scan_loop db found []) (group_key_of db s us) = Some (s1, u1, fl1)" "g \<in> set fl1"
      by auto
    from 1 2 show ?thesis
      by (auto simp: scan_and_group_files_def)
  qed
  have all: "\<forall>found f g s us d s' us' d'.
          f \<in> set found \<and> g \<in> set found
          \<and> parse_filename db (path_name f) = Some (s, us, d)
          \<and> parse_filename db (path_name g) = Some (s', us', d')
          \<and> group_key_of db s us = group_key_of db s' us'
          \<longrightarrow> (\<exists>s0 u0 fl. map_of (scan_and_group_files db found) (group_key_of db s us)
                              = Some (s0, u0, fl) \<and> f \<in> set fl \<and> g \<in> set fl)"
    using grp by blast
  have 1: "normalize_text db [193, 103, 105] = normalize_text db (u ''Agi'')"
    by (simp only: a b)
  have 2: "lower db (normalize_text db [193, 103, 105]) = lower db (normalize_text db (u ''AGI''))"
    by (simp only: a c assms(6,7))
  have 3: "lower db (normalize_text db (u ''Agi'')) = lower db (normalize_text db (u ''AGI''))"
    by (simp only: b c assms(6,7))
  from 1 2 3 mn all show ?thesis
    by (intro conjI)
qed

theorem accent_and_case_grouping_witness:
  "nfd ex_db [193, 103, 105] = [65, 769, 103, 105]
   \<and> category ex_db 769 = ''Mn''
   \<and> normalize_text ex_db [193, 103, 105] = normalize_text ex_db (u ''Agi'')
   \<and> lower ex_db (normalize_text ex_db [193, 103, 105]) = lower ex_db (normalize_text ex_db (u ''AGI''))
   \<and> scan_and_group_files ex_db
        [u ''T_'' @ [193] @ u ''gi.gpx'', u ''t_AGI.gpx'', u ''T_daily_2024-01-01_Agi.gpx'']
      = [((u ''t'', u ''agi''),
          (u ''T'', [193] @ u ''gi'',
           [u ''T_'' @ [193] @ u ''gi.gpx'', u ''t_AGI.gpx'', u ''T_daily_2024-01-01_Agi.gpx'']))]"
proof -
  have h1: "nfd ex_db [193, 103, 105] = [65, 769, 103, 105]" by (simp add: ev)
  have h2: "nfd ex_db (u ''Agi'') = u ''Agi''" by (simp add: ev)
  have h3: "nfd ex_db (u ''AGI'') = u ''AGI''" by (simp add: ev)
  have h4: "category ex_db 769 = ''Mn''" by (simp add: ev)
  have h5: "\<forall>c \<in> set (u ''AgiGI''). category ex_db c \<noteq> ''Mn''" by (simp add: ev)
  have h6: "lower ex_db (u ''Agi'') = u ''agi''" by (simp add: ev)
  have h7: "lower ex_db (u ''AGI'') = u ''agi''" by (simp add: ev)
  note t = accent_and_case_grouping [OF h1 h2 h3 h4 h5 h6 h7]
  have g: "scan_and_group_files ex_db
        [u ''T_'' @ [193] @ u ''gi.gpx'', u ''t_AGI.gpx'', u ''T_daily_2024-01-01_Agi.gpx'']
      = [((u ''t'', u ''agi''),
          (u ''T'', [193] @ u ''gi'',
           [u ''T_'' @ [193] @ u ''gi.gpx'', u ''t_AGI.gpx'', u ''T_daily_2024-01-01_Agi.gpx'']))]"
    by code_simp
  from t have "normalize_text ex_db [193, 103, 105] = normalize_text ex_db (u ''Agi'')"
    and "lower ex_db (normalize_text ex_db [193, 103, 105])
           = lower ex_db (normalize_text ex_db (u ''AGI''))"
    by blast+
  with h1 h4 g show ?thesis by blast
qed

subsection \<open>C8: file names\<close>

text \<open>
  Claim C8. For every file name, \<^verbatim>\<open>parse_filename\<close> returns nothing when the name
  contains \<^verbatim>\<open>_TIMELINE.gpx\<close>. Otherwise the daily pattern is tried first and its groups
  are returned; when it does not match, the full pattern is tried, and under it nothing
  is returned when the user, lower-cased, is \<^verbatim>\<open>timeline\<close>, \<^verbatim>\<open>merged\<close> or \<^verbatim>\<open>combined\<close>;
  nothing is returned when neither pattern matches. A match of the daily pattern splits
  the name into session, \<^verbatim>\<open>_daily_\<close>, a date of the shape of an ISO date, an underscore,
  the user and \<^verbatim>\<open>.gpx\<close>, with the longest session that allows it. A match of the full
  pattern splits the name into session, underscore, user and \<^verbatim>\<open>.gpx\<close> where the user is
  not empty and holds no underscore, so it is the last underscore-delimited segment; and
  every name of that shape is matched, with exactly that session and user.
\<close>

theorem parse_filename_order:
  "(contains (u ''_TIMELINE.gpx'') filename \<longrightarrow> parse_filename db filename = None)
   \<and> (\<not> contains (u ''_TIMELINE.gpx'') filename \<longrightarrow>
        parse_filename db filename =
          (case match_daily db filename of
             Some (s, d, us) \<Rightarrow> Some (s, us, Some d)
           | None \<Rightarrow>
               (case match_full filename of
                  Some (s, us) \<Rightarrow>
                    if lower db us \<in> set reserved_names then None else Some (s, us, None)
                | None \<Rightarrow> None)))
   \<and> (\<forall>s d us. match_daily db filename = Some (s, d, us) \<longrightarrow>
          dot_plus s \<and> is_date db d \<and> dot_plus us
          \<and> (filename = s @ u ''_daily_'' @ d @ u ''_'' @ us @ u ''.gpx''
              \<or> filename = s @ u ''_daily_'' @ d @ u ''_'' @ us @ u ''.gpx'' @ [10])
          \<and> (\<forall>s' r'. filename = s' @ r' \<and> dot_plus s' \<and> daily_tail db r' \<noteq> None
                \<longrightarrow> length s' \<le> length s))
   \<and> (\<forall>s us. match_full filename = Some (s, us) \<longrightarrow>
          dot_plus s \<and> us \<noteq> [] \<and> cp CHR ''_'' \<notin> set us
          \<and> (filename = s @ u ''_'' @ us @ u ''.gpx''
              \<or> filename = s @ u ''_'' @ us @ u ''.gpx'' @ [10]))
   \<and> (\<forall>s us. dot_plus s \<and> us \<noteq> [] \<and> cp CHR ''_'' \<notin> set us
          \<longrightarrow> match_full (s @ u ''_'' @ us @ u ''.gpx'') = Some (s, us))"
proof -
  have a: "contains (u ''_TIMELINE.gpx'') filename \<longrightarrow> parse_filename db filename = None"
    by (simp add: parse_filename_def)
  have b: "\<not> contains (u ''_TIMELINE.gpx'') filename \<longrightarrow>
        parse_filename db filename =
          (case match_daily db filename of
             Some (s, d, us) \<Rightarrow> Some (s, us, Some d)
           | None \<Rightarrow>
               (case match_full filename of
                  Some (s, us) \<Rightarrow>
                    if lower db us \<in> set reserved_names then None else Some (s, us, None)
                | None \<Rightarrow> None))"
    by (simp add: parse_filename_def split: option.splits)
  have c: "\<forall>s d us. match_daily db filename = Some (s, d, us) \<longrightarrow>
          dot_plus s \<and> is_date db d \<and> dot_plus us
          \<and> (filename = s @ u ''_daily_'' @ d @ u ''_'' @ us @ u ''.gpx''
              \<or> filename = s @ u ''_daily_'' @ d @ u ''_'' @ us @ u ''.gpx'' @ [10])
          \<and> (\<forall>s' r'. filename = s' @ r' \<and> dot_plus s' \<and> daily_tail db r' \<noteq> None
                \<longrightarrow> length s' \<le> length s)"
  proof (intro allI impI)
    fix s d us
    assume m: "match_daily db filename = Some (s, d, us)"
    then obtain r where
      f: "List.find (\<lambda>(g, r). dot_plus g \<and> daily_tail db r \<noteq> None) (splits_desc filename)
            = Some (s, r)"
      by (auto simp: match_daily_def split: option.splits)
    have "\<forall>s' r'. filename = s' @ r' \<and> dot_plus s' \<and> daily_tail db r' \<noteq> None
                \<longrightarrow> length s' \<le> length s"
    proof (intro allI impI)
      fix s' r'
      assume h: "filename = s' @ r' \<and> dot_plus s' \<and> daily_tail db r' \<noteq> None"
      then have "s' \<noteq> []" by (simp add: dot_plus_def)
      with h find_splits_desc_longest [OF f, of s' r'] show "length s' \<le> length s"
        by simp
    qed
    with match_daily_Some [OF m] show "dot_plus s \<and> is_date db d \<and> dot_plus us
          \<and> (filename = s @ u ''_daily_'' @ d @ u ''_'' @ us @ u ''.gpx''
              \<or> filename = s @ u ''_daily_'' @ d @ u ''_'' @ us @ u ''.gpx'' @ [10])
          \<and> (\<forall>s' r'. filename = s' @ r' \<and> dot_plus s' \<and> daily_tail db r' \<noteq> None
                \<longrightarrow> length s' \<le> length s)"
      by blast
  qed
  have d: "\<forall>s us. match_full filename = Some (s, us) \<longrightarrow>
          dot_plus s \<and> us \<noteq> [] \<and> cp CHR ''_'' \<notin> set us
          \<and> (filename = s @ u ''_'' @ us @ u ''.gpx''
              \<or> filename = s @ u ''_'' @ us @ u ''.gpx'' @ [10])"
    using match_full_Some by blast
  have e: "\<forall>s us. dot_plus s \<and> us \<noteq> [] \<and> cp CHR ''_'' \<notin> set us
          \<longrightarrow> match_full (s @ u ''_'' @ us @ u ''.gpx'') = Some (s, us)"
    using match_full_complete by blast
  from a b c d e show ?thesis
    by (intro conjI)
qed

theorem parse_filename_order_witness:
  "parse_filename ex_db (u ''T_daily_2024-01-01_Ann.gpx'') = Some (u ''T'', u ''Ann'', Some (u ''2024-01-01''))
   \<and> parse_filename ex_db (u ''My_Trip_Ann.gpx'') = Some (u ''My_Trip'', u ''Ann'', None)
   \<and> match_full (u ''My_Trip_Ann.gpx'') = Some (u ''My_Trip'', u ''Ann'')
   \<and> parse_filename ex_db (u ''T_Merged.gpx'') = None
   \<and> parse_filename ex_db (u ''T_Ann_TIMELINE.gpx'') = None
   \<and> parse_filename ex_db (u ''notes.gpx'') = None"
proof -
  have c: "contains (u ''_TIMELINE.gpx'') (u ''T_Ann_TIMELINE.gpx'')"
    by code_simp
  have n: "\<not> contains (u ''_TIMELINE.gpx'') (u ''My_Trip_Ann.gpx'')"
    by code_simp
  have d: "match_daily ex_db (u ''My_Trip_Ann.gpx'') = None"
    by code_simp
  have s: "dot_plus (u ''My_Trip'') \<and> u ''Ann'' \<noteq> [] \<and> cp CHR ''_'' \<notin> set (u ''Ann'')"
    by code_simp
  have l: "lower ex_db (u ''Ann'') \<notin> set reserved_names"
    by code_simp
  have e: "u ''My_Trip'' @ u ''_'' @ u ''Ann'' @ u ''.gpx'' = u ''My_Trip_Ann.gpx''"
    by (simp add: u_def)
  note t = parse_filename_order [of "u ''My_Trip_Ann.gpx''" ex_db]
  from t s have "match_full (u ''My_Trip'' @ u ''_'' @ u ''Ann'' @ u ''.gpx'')
      = Some (u ''My_Trip'', u ''Ann'')"
    by blast
  then have f: "match_full (u ''My_Trip_Ann.gpx'') = Some (u ''My_Trip'', u ''Ann'')"
    by (simp only: e)
  from t n d f l have 1: "parse_filename ex_db (u ''My_Trip_Ann.gpx'') = Some (u ''My_Trip'', u ''Ann'', None)"
    by simp
  from parse_filename_order [of "u ''T_Ann_TIMELINE.gpx''" ex_db] c
  have 2: "parse_filename ex_db (u ''T_Ann_TIMELINE.gpx'') = None"
    by blast
  have 3: "parse_filename ex_db (u ''T_daily_2024-01-01_Ann.gpx'')
             = Some (u ''T'', u ''Ann'', Some (u ''2024-01-01''))"
    by code_simp
  have 4: "parse_filename ex_db (u ''T_Merged.gpx'') = None"
    by code_simp
  have 5: "parse_filename ex_db (u ''notes.gpx'') = None"
    by code_simp
  from 1 2 3 4 5 f show ?thesis by blast
qed

subsection \<open>C10: aware and naive timestamps\<close>



end
